theory Spec2Isabelle
  imports Complex_Main
begin

section \<open>Values: float32 entries, rows and arrays\<close>

text \<open>
  An entry of a NumPy \<^verbatim>\<open>float32\<close> array is not-a-number, an infinity or a finite
  number. Finite numbers are reals here: rounding and overflow of the machine arithmetic
  are not modelled, the special values and their propagation are.
\<close>

datatype f32 = NaN | PInf | NInf | Fin real

text \<open>\<^verbatim>\<open>np.isnan\<close> on one entry.\<close>

fun isnan :: "f32 \<Rightarrow> bool" where
  "isnan NaN = True"
| "isnan PInf = False"
| "isnan NInf = False"
| "isnan (Fin r) = False"

text \<open>\<^verbatim>\<open>v >= t\<close> for an entry and a finite Python float: false on NaN.\<close>

fun f_ge :: "f32 \<Rightarrow> real \<Rightarrow> bool" where
  "f_ge NaN t = False"
| "f_ge PInf t = True"
| "f_ge NInf t = False"
| "f_ge (Fin r) t = (t \<le> r)"

text \<open>\<^verbatim>\<open>v < t\<close> for an entry and a finite Python float: false on NaN.\<close>

fun f_lt :: "f32 \<Rightarrow> real \<Rightarrow> bool" where
  "f_lt NaN t = False"
| "f_lt PInf t = False"
| "f_lt NInf t = True"
| "f_lt (Fin r) t = (r < t)"

text \<open>The largest finite float32, \<^verbatim>\<open>np.finfo(np.float32).max\<close>.\<close>

definition f32_max :: real where
  "f32_max = (2 - 1 / 2 ^ 23) * 2 ^ 127"

text \<open>
  \<^verbatim>\<open>np.nan_to_num(v, nan=0.0)\<close> on one entry: NaN becomes 0.0, and (with the
  defaults for \<^verbatim>\<open>posinf\<close> and \<^verbatim>\<open>neginf\<close>) an infinity becomes the
  largest finite number of its sign.
\<close>

fun nan_to_num :: "f32 \<Rightarrow> f32" where
  "nan_to_num NaN = Fin 0"
| "nan_to_num PInf = Fin f32_max"
| "nan_to_num NInf = Fin (- f32_max)"
| "nan_to_num (Fin r) = Fin r"

text \<open>A finite Python float times an entry (\<^verbatim>\<open>a * v\<close>), by the IEEE rules.\<close>

fun f_scale :: "real \<Rightarrow> f32 \<Rightarrow> f32" where
  "f_scale a NaN = NaN"
| "f_scale a PInf = (if 0 < a then PInf else if a < 0 then NInf else NaN)"
| "f_scale a NInf = (if 0 < a then NInf else if a < 0 then PInf else NaN)"
| "f_scale a (Fin r) = Fin (a * r)"

text \<open>The sum of two entries (\<^verbatim>\<open>v + w\<close>), by the IEEE rules.\<close>

fun f_add :: "f32 \<Rightarrow> f32 \<Rightarrow> f32" where
  "f_add NaN w = NaN"
| "f_add v NaN = NaN"
| "f_add PInf NInf = NaN"
| "f_add NInf PInf = NaN"
| "f_add PInf w = PInf"
| "f_add v PInf = PInf"
| "f_add NInf w = NInf"
| "f_add v NInf = NInf"
| "f_add (Fin a) (Fin b) = Fin (a + b)"

text \<open>
  A row of a \<^verbatim>\<open>(n, 4)\<close> array is one landmark: x, y, z and visibility, columns
  0 to 3. An array is the list of its rows.
\<close>

type_synonym row = "f32 \<times> f32 \<times> f32 \<times> f32"

type_synonym arr = "row list"

fun col_x :: "row \<Rightarrow> f32" where
  "col_x (x, y, z, v) = x"

fun col_y :: "row \<Rightarrow> f32" where
  "col_y (x, y, z, v) = y"

fun col_z :: "row \<Rightarrow> f32" where
  "col_z (x, y, z, v) = z"

text \<open>Column 3, as in \<^verbatim>\<open>cur[:, 3]\<close>.\<close>

fun col_vis :: "row \<Rightarrow> f32" where
  "col_vis (x, y, z, v) = v"

text \<open>An elementwise operation on one row, and on two rows of the same shape.\<close>

fun row_map :: "(f32 \<Rightarrow> f32) \<Rightarrow> row \<Rightarrow> row" where
  "row_map f (x, y, z, v) = (f x, f y, f z, f v)"

fun row_map2 :: "(f32 \<Rightarrow> f32 \<Rightarrow> f32) \<Rightarrow> row \<Rightarrow> row \<Rightarrow> row" where
  "row_map2 f (x, y, z, v) (x', y', z', v') = (f x x', f y y', f z z', f v v')"

fun row_all :: "(f32 \<Rightarrow> bool) \<Rightarrow> row \<Rightarrow> bool" where
  "row_all p (x, y, z, v) = (p x \<and> p y \<and> p z \<and> p v)"

text \<open>The unknown landmark: NaN in all four fields.\<close>

definition nan_row :: row where
  "nan_row = (NaN, NaN, NaN, NaN)"

text \<open>\<^verbatim>\<open>np.full((33, 4), np.nan, dtype=np.float32)\<close>.\<close>

definition full_nan :: arr where
  "full_nan = replicate 33 nan_row"

text \<open>\<^verbatim>\<open>np.isnan(a).all()\<close>: every entry of the array is NaN.\<close>

definition isnan_all :: "arr \<Rightarrow> bool" where
  "isnan_all a = list_all (row_all isnan) a"

text \<open>\<^verbatim>\<open>cur[:, 3] >= t\<close>: the boolean mask of the rows whose visibility passes.\<close>

definition vis_mask :: "arr \<Rightarrow> real \<Rightarrow> bool list" where
  "vis_mask cur t = map (\<lambda>r. f_ge (col_vis r) t) cur"

subsection \<open>Boolean-mask indexing\<close>

datatype py_error = IndexError | ValueError

text \<open>The rows picked by a mask of the array's own length, in order.\<close>

fun pick :: "'a list \<Rightarrow> bool list \<Rightarrow> 'a list" where
  "pick (r # rs) (m # ms) = (if m then r # pick rs ms else pick rs ms)"
| "pick rs ms = []"

text \<open>
  \<^verbatim>\<open>a[mask]\<close>: a new array of the picked rows; NumPy raises IndexError when the
  mask's length is not the array's.
\<close>

definition select_mask :: "'a list \<Rightarrow> bool list \<Rightarrow> py_error + 'a list" where
  "select_mask a msk =
     (if length msk \<noteq> length a then Inl IndexError else Inr (pick a msk))"

text \<open>The rows of \<open>a\<close> with the picked ones replaced, in order, by the rows of \<open>vs\<close>.\<close>

fun put :: "'a list \<Rightarrow> bool list \<Rightarrow> 'a list \<Rightarrow> 'a list" where
  "put (r # rs) (True # ms) (v # vs) = v # put rs ms vs"
| "put (r # rs) (False # ms) vs = r # put rs ms vs"
| "put rs ms vs = rs"

text \<open>
  \<^verbatim>\<open>a[mask] = vs\<close>: IndexError when the mask's length is not the array's,
  ValueError when \<open>vs\<close> does not have one row for each picked row.
\<close>

definition assign_mask :: "'a list \<Rightarrow> bool list \<Rightarrow> 'a list \<Rightarrow> py_error + 'a list" where
  "assign_mask a msk vs =
     (if length msk \<noteq> length a then Inl IndexError
      else if length vs \<noteq> length (filter id msk) then Inl ValueError
      else Inr (put a msk vs))"

section \<open>Smoothing strategies\<close>

text \<open>
  \<^verbatim>\<open>smoothing/none.py\<close> and \<^verbatim>\<open>smoothing/ema.py\<close>: the two implementations
  of \<^verbatim>\<open>ISmoother\<close>; \<^verbatim>\<open>EmaSmoother\<close> holds its \<^verbatim>\<open>alpha\<close>.
\<close>

datatype smoother = NoSmoothing | EmaSmoother real

text \<open>\<^verbatim>\<open>NoSmoothing.update(prev, new)\<close> returns \<open>new\<close>.\<close>

definition none_update :: "arr \<Rightarrow> arr \<Rightarrow> arr" where
  "none_update prev new = new"

text \<open>
  \<^verbatim>\<open>EmaSmoother.update\<close>, one entry:
  \<^verbatim>\<open>prev = np.nan_to_num(prev, nan=0.0); (1.0 - alpha) * prev + alpha * new\<close>.
\<close>

definition ema_entry :: "real \<Rightarrow> f32 \<Rightarrow> f32 \<Rightarrow> f32" where
  "ema_entry alpha p n = f_add (f_scale (1 - alpha) (nan_to_num p)) (f_scale alpha n)"

text \<open>\<^verbatim>\<open>EmaSmoother.update(prev, new)\<close> on two arrays of the same shape.\<close>

definition ema_smoother_update :: "real \<Rightarrow> arr \<Rightarrow> arr \<Rightarrow> arr" where
  "ema_smoother_update alpha prev new = map2 (row_map2 (ema_entry alpha)) prev new"

text \<open>\<^verbatim>\<open>self.smoother.update(prev, new)\<close>: dispatch on the strategy.\<close>

fun strategy_update :: "smoother \<Rightarrow> arr \<Rightarrow> arr \<Rightarrow> arr" where
  "strategy_update NoSmoothing prev new = none_update prev new"
| "strategy_update (EmaSmoother alpha) prev new = ema_smoother_update alpha prev new"

text \<open>
  \<^verbatim>\<open>ema_update\<close> of \<^verbatim>\<open>server.py\<close>, one entry: where \<open>prev\<close> is NaN the
  output is \<open>new\<close>, elsewhere \<^verbatim>\<open>(1.0 - alpha) * prev + alpha * new\<close>.
\<close>

definition ema_update_entry :: "real \<Rightarrow> f32 \<Rightarrow> f32 \<Rightarrow> f32" where
  "ema_update_entry alpha p n =
     (if isnan p then n else f_add (f_scale (1 - alpha) p) (f_scale alpha n))"

text \<open>\<^verbatim>\<open>ema_update(prev, new, alpha)\<close> of \<^verbatim>\<open>server.py\<close>.\<close>

definition ema_update :: "arr \<Rightarrow> arr \<Rightarrow> real \<Rightarrow> arr" where
  "ema_update prev new alpha = map2 (row_map2 (ema_update_entry alpha)) prev new"

section \<open>The store of arrays\<close>

text \<open>
  NumPy arrays are objects: two names can hold the same array, and an assignment through
  one is seen through the other. The store is the list of all arrays allocated so far, a
  reference is an index into it; \<^verbatim>\<open>a.copy()\<close> allocates a new array at the end.
\<close>

type_synonym heap = "arr list"

section \<open>The merge engine (\<^verbatim>\<open>mvc/controller.py\<close>)\<close>

text \<open>
  The fields of \<^verbatim>\<open>TrackerController\<close> that \<^verbatim>\<open>_merge\<close> reads and writes;
  \<open>last_arr\<close> is the reference held in \<^verbatim>\<open>self._last\<close>.
\<close>

record controller =
  vis_thresh :: real
  smoother :: smoother
  last_arr :: nat

text \<open>
  \<^verbatim>\<open>TrackerController._merge(cur)\<close>. The result is the reference returned, the
  controller and the store afterwards; an exception leaves the controller as it was.
  In the first branch the array of \<^verbatim>\<open>self._last\<close> is written in place and
  \<^verbatim>\<open>self._last\<close> itself is returned. In the second branch
  \<^verbatim>\<open>merged = self._last.copy()\<close> is a new array, which is written, stored in
  \<^verbatim>\<open>self._last\<close> and returned.
\<close>

definition merge :: "controller \<Rightarrow> heap \<Rightarrow> arr \<Rightarrow> py_error + (nat \<times> controller \<times> heap)" where
  "merge c h cur =
     (let lst = h ! last_arr c in
      if isnan_all lst then
        (let msk = vis_mask cur (vis_thresh c) in
         case select_mask cur msk of
           Inl e \<Rightarrow> Inl e
         | Inr vs \<Rightarrow>
             (case assign_mask lst msk vs of
                Inl e \<Rightarrow> Inl e
              | Inr a \<Rightarrow> Inr (last_arr c, c, h[last_arr c := a])))
      else
        (let accept = vis_mask cur (vis_thresh c);
             m = length h;
             h1 = h @ [lst]
         in if list_ex id accept then
              (case select_mask lst accept of
                 Inl e \<Rightarrow> Inl e
               | Inr ps \<Rightarrow>
                   (case select_mask cur accept of
                      Inl e \<Rightarrow> Inl e
                    | Inr ns \<Rightarrow>
                        (case assign_mask (h1 ! m) accept (strategy_update (smoother c) ps ns) of
                           Inl e \<Rightarrow> Inl e
                         | Inr a \<Rightarrow> Inr (m, c\<lparr>last_arr := m\<rparr>, h1[m := a]))))
            else Inr (m, c\<lparr>last_arr := m\<rparr>, h1)))"

subsection \<open>Frames and states used as concrete inputs\<close>

text \<open>A row of \<^verbatim>\<open>np.zeros((33, 4))\<close>: position 0 and visibility 0.\<close>

definition zero_row :: row where
  "zero_row = (Fin 0, Fin 0, Fin 0, Fin 0)"

text \<open>
  The controller of the spec's end-to-end scenario (threshold 0.5, EMA with alpha 0.35),
  and the same with the pass-through strategy; \<^verbatim>\<open>self._last\<close> is array 0.
\<close>

definition ctrl_ema :: controller where
  "ctrl_ema = \<lparr>vis_thresh = 0.5, smoother = EmaSmoother 0.35, last_arr = 0\<rparr>"

definition ctrl_none :: controller where
  "ctrl_none = \<lparr>vis_thresh = 0.5, smoother = NoSmoothing, last_arr = 0\<rparr>"

text \<open>A frame in which no landmark is visible.\<close>

definition frame_dark :: arr where
  "frame_dark = replicate 33 zero_row"

text \<open>Frames in which only landmark 0 is visible.\<close>

definition frame_a :: arr where
  "frame_a = (Fin 1, Fin 1, Fin 1, Fin 0.9) # replicate 32 zero_row"

definition frame_b :: arr where
  "frame_b = (Fin 2, Fin 2, Fin 2, Fin 0.7) # replicate 32 zero_row"

text \<open>A frame in which only landmark 1 is visible.\<close>

definition frame_c :: arr where
  "frame_c = zero_row # (Fin 2, Fin 2, Fin 2, Fin 0.9) # replicate 31 zero_row"

text \<open>The state after \<open>frame_a\<close> has seeded the all-unknown state.\<close>

definition seeded_a :: arr where
  "seeded_a = (Fin 1, Fin 1, Fin 1, Fin 0.9) # replicate 32 nan_row"

text \<open>
  The state after \<open>frame_b\<close> is merged into \<open>seeded_a\<close> with EMA 0.35: landmark 0 is
  \<open>0.65 * (1, 1, 1, 0.9) + 0.35 * (2, 2, 2, 0.7)\<close>.
\<close>

definition blended_b :: arr where
  "blended_b = (Fin 1.35, Fin 1.35, Fin 1.35, Fin 0.83) # replicate 32 nan_row"

text \<open>
  The state after \<open>frame_c\<close> is merged into \<open>seeded_a\<close> with EMA 0.35: landmark 1 is
  \<open>0.65 * 0 + 0.35 * (2, 2, 2, 0.9)\<close>.
\<close>

definition blended_c :: arr where
  "blended_c =
     (Fin 1, Fin 1, Fin 1, Fin 0.9) # (Fin 0.7, Fin 0.7, Fin 0.7, Fin 0.315)
       # replicate 31 nan_row"

section \<open>The merge of \<^verbatim>\<open>server.py\<close>\<close>

definition VIS_THRESH :: real where
  "VIS_THRESH = 0.5"

definition USE_SMOOTHING :: bool where
  "USE_SMOOTHING = True"

definition EMA_ALPHA :: real where
  "EMA_ALPHA = 0.35"

text \<open>
  \<^verbatim>\<open>merge_frame(cur33x4)\<close>; \<open>lg\<close> is the reference held in the global
  \<^verbatim>\<open>last_good\<close>. The result is the pair returned (a reference and the mask), the
  new \<^verbatim>\<open>last_good\<close> and the store. The first branch writes the array of
  \<^verbatim>\<open>last_good\<close> in place and returns \<^verbatim>\<open>last_good.copy()\<close>.
\<close>

definition merge_frame ::
  "nat \<Rightarrow> heap \<Rightarrow> arr \<Rightarrow> py_error + ((nat \<times> bool list) \<times> nat \<times> heap)" where
  "merge_frame lg h cur =
     (let lst = h ! lg in
      if isnan_all lst then
        (let msk = vis_mask cur VIS_THRESH in
         case select_mask cur msk of
           Inl e \<Rightarrow> Inl e
         | Inr vs \<Rightarrow>
             (case assign_mask lst msk vs of
                Inl e \<Rightarrow> Inl e
              | Inr a \<Rightarrow> Inr ((length h, msk), lg, h[lg := a] @ [a])))
      else
        (let accept = vis_mask cur VIS_THRESH;
             m = length h;
             h1 = h @ [lst]
         in if USE_SMOOTHING then
              (case select_mask lst accept of
                 Inl e \<Rightarrow> Inl e
               | Inr ps \<Rightarrow>
                   (case select_mask cur accept of
                      Inl e \<Rightarrow> Inl e
                    | Inr ns \<Rightarrow>
                        (case assign_mask (h1 ! m) accept (ema_update ps ns EMA_ALPHA) of
                           Inl e \<Rightarrow> Inl e
                         | Inr a \<Rightarrow> Inr ((m, accept), m, h1[m := a]))))
            else
              (case select_mask cur accept of
                 Inl e \<Rightarrow> Inl e
               | Inr ns \<Rightarrow>
                   (case assign_mask (h1 ! m) accept ns of
                      Inl e \<Rightarrow> Inl e
                    | Inr a \<Rightarrow> Inr ((m, accept), m, h1[m := a])))))"

section \<open>The observable pose store (\<^verbatim>\<open>mvc/model.py\<close>)\<close>

text \<open>
  An observer is an object, known by its identity. \<open>arr_ref\<close> is the reference held in
  \<^verbatim>\<open>self._arr\<close>, \<open>observers\<close> the list \<^verbatim>\<open>self._observers\<close>.
\<close>

type_synonym observer = nat

record pose_model =
  arr_ref :: nat
  observers :: "observer list"

text \<open>\<^verbatim>\<open>attach\<close>: \<^verbatim>\<open>self._observers.append(observer)\<close>.\<close>

definition attach :: "pose_model \<Rightarrow> observer \<Rightarrow> pose_model" where
  "attach m ob = m\<lparr>observers := observers m @ [ob]\<rparr>"

text \<open>
  Python's \<^verbatim>\<open>list.remove(x)\<close>: drops the first item equal to \<open>x\<close>, raises
  ValueError when there is none.
\<close>

fun list_remove :: "'a list \<Rightarrow> 'a \<Rightarrow> py_error + 'a list" where
  "list_remove [] x = Inl ValueError"
| "list_remove (y # ys) x =
     (if y = x then Inr ys
      else (case list_remove ys x of Inl e \<Rightarrow> Inl e | Inr zs \<Rightarrow> Inr (y # zs)))"

text \<open>
  \<^verbatim>\<open>detach\<close>: \<^verbatim>\<open>self._observers.remove(observer)\<close>. The result is the
  exception raised, if any, and the model afterwards.
\<close>

definition detach :: "pose_model \<Rightarrow> observer \<Rightarrow> py_error option \<times> pose_model" where
  "detach m ob =
     (case list_remove (observers m) ob of
        Inl e \<Rightarrow> (Some e, m)
      | Inr obs \<Rightarrow> (None, m\<lparr>observers := obs\<rparr>))"

text \<open>
  What one call \<^verbatim>\<open>obs.update(data)\<close> does, as \<^verbatim>\<open>notify\<close> sees it: it
  returns, it raises an \<^verbatim>\<open>Exception\<close> whose text is \<open>e\<close> (\<open>Raised e\<close>), or it
  raises something that is not an \<^verbatim>\<open>Exception\<close>, such as
  \<^verbatim>\<open>KeyboardInterrupt\<close> or \<^verbatim>\<open>SystemExit\<close> (\<open>RaisedBase e\<close>).
\<close>

datatype outcome = Returned | Raised string | RaisedBase string

text \<open>
  The observers' code is given from outside: called with the reference \<open>data\<close> while the
  registry is \<open>reg\<close>, observer \<open>ob\<close> has an outcome and may attach or detach observers,
  leaving the registry it returns. Observers do not assign the model's array.
\<close>

type_synonym behaviour = "observer \<Rightarrow> nat \<Rightarrow> observer list \<Rightarrow> outcome \<times> observer list"

text \<open>A call made by \<^verbatim>\<open>notify\<close>: the observer, the reference passed, the outcome.\<close>

type_synonym call = "observer \<times> nat \<times> outcome"

text \<open>
  The loop of \<^verbatim>\<open>notify\<close> over the snapshot \<^verbatim>\<open>list(self._observers)\<close>:
  each call \<^verbatim>\<open>obs.update(self._arr)\<close> is recorded in \<open>cs\<close> as it is made, and
  each line printed by the handler of \<^verbatim>\<open>except Exception\<close> in \<open>ps\<close>. A raise
  that is not an \<^verbatim>\<open>Exception\<close> is not handled: it ends the loop and leaves
  \<^verbatim>\<open>notify\<close>. The first component of the result is \<open>None\<close> when the loop returns
  and \<open>Some e\<close> when the raise \<open>e\<close> leaves it.
\<close>

fun notify_loop ::
  "behaviour \<Rightarrow> observer list \<Rightarrow> pose_model \<Rightarrow> call list \<Rightarrow> string list
     \<Rightarrow> string option \<times> pose_model \<times> call list \<times> string list" where
  "notify_loop upd [] m cs ps = (None, m, cs, ps)"
| "notify_loop upd (ob # obs) m cs ps =
     (case upd ob (arr_ref m) (observers m) of
        (Returned, reg) \<Rightarrow>
          notify_loop upd obs (m\<lparr>observers := reg\<rparr>) (cs @ [(ob, arr_ref m, Returned)]) ps
      | (Raised e, reg) \<Rightarrow>
          notify_loop upd obs (m\<lparr>observers := reg\<rparr>) (cs @ [(ob, arr_ref m, Raised e)])
            (ps @ [''[Model] Observer failed: '' @ e])
      | (RaisedBase e, reg) \<Rightarrow>
          (Some e, m\<lparr>observers := reg\<rparr>, cs @ [(ob, arr_ref m, RaisedBase e)], ps))"

text \<open>\<^verbatim>\<open>notify\<close>.\<close>

definition notify ::
  "behaviour \<Rightarrow> pose_model \<Rightarrow> string option \<times> pose_model \<times> call list \<times> string list" where
  "notify upd m = notify_loop upd (observers m) m [] []"

text \<open>\<^verbatim>\<open>set\<close>: \<^verbatim>\<open>self._arr = arr33x4; self.notify()\<close>.\<close>

definition set_arr ::
  "behaviour \<Rightarrow> pose_model \<Rightarrow> nat \<Rightarrow> string option \<times> pose_model \<times> call list \<times> string list" where
  "set_arr upd m a = notify upd (m\<lparr>arr_ref := a\<rparr>)"

text \<open>\<^verbatim>\<open>get\<close>: \<^verbatim>\<open>return self._arr\<close>.\<close>

definition get_arr :: "pose_model \<Rightarrow> nat" where
  "get_arr m = arr_ref m"

subsection \<open>Reading a run of \<^verbatim>\<open>notify\<close> from the observers' code\<close>

text \<open>
  The registry that the observers \<open>obs\<close>, updated one after the other with the reference
  \<open>a\<close>, leave when the first of them is called at the registry \<open>reg\<close>.
\<close>

fun registry_after :: "behaviour \<Rightarrow> nat \<Rightarrow> observer list \<Rightarrow> observer list \<Rightarrow> observer list" where
  "registry_after upd a [] reg = reg"
| "registry_after upd a (ob # obs) reg = registry_after upd a obs (snd (upd ob a reg))"

text \<open>
  The outcome of observer number \<open>i\<close> of \<open>obs\<close>, when it is called at the registry that the
  observers before it have left.
\<close>

definition outcome_at :: "behaviour \<Rightarrow> nat \<Rightarrow> observer list \<Rightarrow> observer list \<Rightarrow> nat \<Rightarrow> outcome" where
  "outcome_at upd a obs reg i = fst (upd (obs ! i) a (registry_after upd a (take i obs) reg))"

text \<open>The line that the handler prints for a call, if the call raised an \<^verbatim>\<open>Exception\<close>.\<close>

fun failure_line :: "call \<Rightarrow> string option" where
  "failure_line (ob, a, Raised e) = Some (''[Model] Observer failed: '' @ e)"
| "failure_line (ob, a, Returned) = None"
| "failure_line (ob, a, RaisedBase e) = None"

subsection \<open>Observers used as concrete inputs\<close>




text \<open>A model to which observer 2 has been attached twice.\<close>

definition model_1232 :: pose_model where
  "model_1232 = \<lparr>arr_ref = 0, observers = [1, 2, 3, 2]\<rparr>"

section \<open>The payload adapter (\<^verbatim>\<open>payload/adapter.py\<close>)\<close>

text \<open>The options of \<^verbatim>\<open>UnityPoseAdapter\<close>.\<close>

record unity_pose_adapter =
  nan_to_zero :: bool
  round_ndigits :: "int option"

text \<open>Rounding a real to the nearest integer, ties to the even one.\<close>

definition round_half_even :: "real \<Rightarrow> int" where
  "round_half_even x =
     (let f = \<lfloor>x\<rfloor>; d = x - of_int f
      in if d < 1 / 2 then f else if 1 / 2 < d then f + 1 else if even f then f else f + 1)"

text \<open>Python's \<^verbatim>\<open>round(x, n)\<close> on a finite float: \<open>n\<close> decimal digits, ties to even.\<close>

definition py_round :: "real \<Rightarrow> int \<Rightarrow> real" where
  "py_round x n =
     (if 0 \<le> n then of_int (round_half_even (x * 10 ^ nat n)) / 10 ^ nat n
      else of_int (round_half_even (x / 10 ^ nat (- n))) * 10 ^ nat (- n))"

text \<open>\<^verbatim>\<open>round(float(v), n)\<close>: NaN and the infinities are returned as they are.\<close>

fun f_round :: "f32 \<Rightarrow> int \<Rightarrow> f32" where
  "f_round NaN n = NaN"
| "f_round PInf n = PInf"
| "f_round NInf n = NInf"
| "f_round (Fin r) n = Fin (py_round r n)"

text \<open>\<^verbatim>\<open>UnityPoseAdapter._num\<close>.\<close>

definition num :: "unity_pose_adapter \<Rightarrow> f32 \<Rightarrow> f32" where
  "num cfg v = (case round_ndigits cfg of None \<Rightarrow> v | Some n \<Rightarrow> f_round v n)"

text \<open>
  The text \<^verbatim>\<open>json.dumps\<close> writes is kept as a list of pieces: literal characters,
  and float literals. \<open>Num v\<close> stands for the literal written for the float \<open>v\<close>:
  \<^verbatim>\<open>NaN\<close>, \<^verbatim>\<open>Infinity\<close> and \<^verbatim>\<open>-Infinity\<close> for the three special values,
  and the decimal \<^verbatim>\<open>repr\<close> of a finite one (\<^verbatim>\<open>0.0\<close> for \<open>Fin 0\<close>).
\<close>

datatype piece = Lit string | Num f32

type_synonym payload_text = "piece list"

text \<open>A JSON string or key that needs no escape, in its double quotes.\<close>

definition dq :: "string \<Rightarrow> string" where
  "dq s = CHR 0x22 # s @ [CHR 0x22]"

definition digit :: "nat \<Rightarrow> char" where
  "digit n = ''0123456789'' ! n"

text \<open>The decimal literal of a natural number, as written for the key \<^verbatim>\<open>id\<close>.\<close>

fun dec_nat :: "nat \<Rightarrow> string" where
  "dec_nat n = (if n < 10 then [digit n] else dec_nat (n div 10) @ [digit (n mod 10)])"

text \<open>
  One item of \<^verbatim>\<open>pose\<close>, with the compact separators: the keys
  \<^verbatim>\<open>id\<close>, \<^verbatim>\<open>x\<close>, \<^verbatim>\<open>y\<close>, \<^verbatim>\<open>z\<close> in this order, each in double
  quotes and followed by a colon and its value.
\<close>

definition pose_item :: "unity_pose_adapter \<Rightarrow> nat \<Rightarrow> row \<Rightarrow> payload_text" where
  "pose_item cfg i r =
     [Lit (''{'' @ dq ''id'' @ '':'' @ dec_nat i @ '','' @ dq ''x'' @ '':''),
      Num (num cfg (col_x r)),
      Lit ('','' @ dq ''y'' @ '':''),
      Num (num cfg (col_y r)),
      Lit ('','' @ dq ''z'' @ '':''),
      Num (num cfg (col_z r)),
      Lit ''}'']"

text \<open>The items of a JSON list, with \<^verbatim>\<open>,\<close> between them.\<close>

fun join_items :: "payload_text list \<Rightarrow> payload_text" where
  "join_items [] = []"
| "join_items [x] = x"
| "join_items (x # y # xs) = x @ [Lit '',''] @ join_items (y # xs)"

text \<open>
  \<^verbatim>\<open>UnityPoseAdapter.to_text\<close>; \<open>ts\<close> is what
  \<^verbatim>\<open>datetime.utcnow().isoformat()\<close> returns at the call. Reading row \<open>i\<close> of an
  array with fewer than 33 rows raises IndexError.
\<close>

definition to_text :: "unity_pose_adapter \<Rightarrow> string \<Rightarrow> arr \<Rightarrow> py_error + payload_text" where
  "to_text cfg ts a =
     (let safe = (if nan_to_zero cfg then map (row_map nan_to_num) a else a)
      in if length safe < 33 then Inl IndexError
         else Inr ([Lit (''{'' @ dq ''ts'' @ '':'' @ dq (ts @ ''Z'') @ '','' @ dq ''pose'' @ '':['')]
                   @ join_items (map (\<lambda>i. pose_item cfg i (safe ! i)) [0..<33])
                   @ [Lit '']}'']))"

section \<open>The broadcast server (\<^verbatim>\<open>transport/websocket_view.py\<close>)\<close>

text \<open>
  A connection is an object, known by its identity. \<^verbatim>\<open>self._clients\<close> is a Python
  set: it is kept as a list without repetition, in the order in which
  \<^verbatim>\<open>list(self._clients)\<close> lists it.
\<close>

type_synonym conn = nat

record ws_view =
  adapter :: unity_pose_adapter
  latest_text :: "payload_text option"
  clients :: "conn list"

text \<open>
  \<^verbatim>\<open>WebSocketView.update\<close>: the text is computed first, then stored under the lock.
  The result is the exception raised, if any, and the view afterwards.
\<close>

definition ws_update :: "ws_view \<Rightarrow> string \<Rightarrow> arr \<Rightarrow> py_error option \<times> ws_view" where
  "ws_update v ts a =
     (case to_text (adapter v) ts a of
        Inl e \<Rightarrow> (Some e, v)
      | Inr t \<Rightarrow> (None, v\<lparr>latest_text := Some t\<rparr>))"

text \<open>
  A run of notifications, one after the other, each with the clock reading and the state
  it is given; there is no broadcast tick between them.
\<close>

fun ws_updates :: "ws_view \<Rightarrow> (string \<times> arr) list \<Rightarrow> ws_view" where
  "ws_updates v [] = v"
| "ws_updates v ((ts, a) # us) = ws_updates (snd (ws_update v ts a)) us"

text \<open>
  \<^verbatim>\<open>_handler\<close>: \<^verbatim>\<open>self._clients.add(ws)\<close> when the connection opens, and
  \<^verbatim>\<open>self._clients.discard(ws)\<close> in its \<^verbatim>\<open>finally\<close> when the connection ends.
\<close>

definition handler_enter :: "ws_view \<Rightarrow> conn \<Rightarrow> ws_view" where
  "handler_enter v ws = v\<lparr>clients := List.insert ws (clients v)\<rparr>"

definition handler_exit :: "ws_view \<Rightarrow> conn \<Rightarrow> ws_view" where
  "handler_exit v ws = v\<lparr>clients := removeAll ws (clients v)\<rparr>"

text \<open>What \<^verbatim>\<open>asyncio.gather(..., return_exceptions=True)\<close> gives for one send.\<close>

datatype send_result = Sent | SendFailed

text \<open>
  One turn of the loop of \<^verbatim>\<open>_broadcast_loop\<close>, before its sleep. \<open>fails c\<close> says
  whether \<^verbatim>\<open>c.send(text)\<close> raises in this turn. The result is the list of the
  sends made (connection, text, outcome) and the view afterwards.
\<close>

definition broadcast_tick ::
  "(conn \<Rightarrow> bool) \<Rightarrow> ws_view \<Rightarrow> (conn \<times> payload_text \<times> send_result) list \<times> ws_view" where
  "broadcast_tick fails v =
     (case latest_text v of
        None \<Rightarrow> ([], v)
      | Some txt \<Rightarrow>
          if txt \<noteq> [] \<and> clients v \<noteq> []
          then (map (\<lambda>c. (c, txt, if fails c then SendFailed else Sent)) (clients v), v)
          else ([], v))"

subsection \<open>Views and send outcomes used as concrete inputs\<close>

text \<open>The adapter of \<^verbatim>\<open>app.py\<close>: NaN to zero, four decimal digits.\<close>

definition app_adapter :: unity_pose_adapter where
  "app_adapter = \<lparr>nan_to_zero = True, round_ndigits = Some 4\<rparr>"

text \<open>A view with two clients and no payload yet, and one holding a payload.\<close>

definition view_12 :: ws_view where
  "view_12 = \<lparr>adapter = app_adapter, latest_text = None, clients = [1, 2]\<rparr>"

definition view_12_ready :: ws_view where
  "view_12_ready = \<lparr>adapter = app_adapter, latest_text = Some [Lit ''{}''], clients = [1, 2]\<rparr>"

text \<open>Two notifications in a row: the state \<open>seeded_a\<close>, then the state \<open>blended_b\<close>.\<close>

definition two_updates :: "(string \<times> arr) list" where
  "two_updates =
     [(''2025-01-01T00:00:00.000000'', seeded_a), (''2025-01-01T00:00:00.010000'', blended_b)]"

text \<open>No send fails; the send to client 1 fails.\<close>

definition none_fails :: "conn \<Rightarrow> bool" where
  "none_fails c = False"

definition first_fails :: "conn \<Rightarrow> bool" where
  "first_fails c = (c = 1)"

section \<open>The broadcast loop of \<^verbatim>\<open>server.py\<close>\<close>

text \<open>The globals \<^verbatim>\<open>clients\<close> and \<^verbatim>\<open>latest_payload_text\<close>.\<close>

record server_globals =
  g_clients :: "conn list"
  latest_payload_text :: "payload_text option"

text \<open>One turn of the loop of \<^verbatim>\<open>broadcast_loop\<close>, before its sleep.\<close>

definition server_broadcast_tick ::
  "(conn \<Rightarrow> bool) \<Rightarrow> server_globals \<Rightarrow> (conn \<times> payload_text \<times> send_result) list \<times> server_globals" where
  "server_broadcast_tick fails g =
     (if g_clients g \<noteq> [] \<and> latest_payload_text g \<noteq> None \<and> latest_payload_text g \<noteq> Some []
      then (map (\<lambda>c. (c, the (latest_payload_text g), if fails c then SendFailed else Sent))
              (g_clients g), g)
      else ([], g))"

section \<open>Boolean-mask indexing: results\<close>

lemma length_pick: "length a = length m \<Longrightarrow> length (pick a m) = length (filter id m)"
  by (induction a m rule: pick.induct) auto

lemma pick_map2:
  "length a = length m \<Longrightarrow> length c = length m \<Longrightarrow>
   pick (map2 f a c) m = map2 f (pick a m) (pick c m)"
proof (induction m arbitrary: a c)
  case Nil
  then show ?case by simp
next
  case (Cons b m)
  then obtain x a' y c' where "a = x # a'" "c = y # c'"
    by (metis length_Suc_conv)
  with Cons show ?case by simp
qed

lemma length_put: "length (put a m vs) = length a"
  by (induction a m vs rule: put.induct) auto

lemma put_pick_nth:
  "length a = length m \<Longrightarrow> length d = length m \<Longrightarrow> k < length m \<Longrightarrow>
   put a m (pick d m) ! k = (if m ! k then d ! k else a ! k)"
proof (induction m arbitrary: a d k)
  case Nil
  then show ?case by simp
next
  case (Cons b m)
  then obtain x a' y d' where eq: "a = x # a'" "d = y # d'"
    by (metis length_Suc_conv)
  show ?case
  proof (cases k)
    case 0
    then show ?thesis using eq by (cases b) auto
  next
    case (Suc j)
    then show ?thesis using eq Cons by (cases b) auto
  qed
qed

lemma put_none: "\<not> list_ex id m \<Longrightarrow> put a m vs = a"
  by (induction a m vs rule: put.induct) auto

lemma length_vis_mask: "length (vis_mask cur t) = length cur"
  by (simp add: vis_mask_def)

lemma vis_mask_nth: "k < length cur \<Longrightarrow> vis_mask cur t ! k = f_ge (col_vis (cur ! k)) t"
  by (simp add: vis_mask_def)

lemma merge_seed:
  assumes "isnan_all (h ! last_arr c)" and "length cur = length (h ! last_arr c)"
  shows "merge c h cur =
    Inr (last_arr c, c,
      h[last_arr c := put (h ! last_arr c) (vis_mask cur (vis_thresh c))
         (pick cur (vis_mask cur (vis_thresh c)))])"
  using assms
  by (simp add: merge_def Let_def select_mask_def assign_mask_def length_vis_mask length_pick)

lemma strategy_update_map2:
  "strategy_update s ps ns =
     (case s of NoSmoothing \<Rightarrow> ns | EmaSmoother al \<Rightarrow> map2 (row_map2 (ema_entry al)) ps ns)"
  by (cases s) (simp_all add: none_update_def ema_smoother_update_def)

lemma length_strategy_update:
  "length ps = length ns \<Longrightarrow> length (strategy_update s ps ns) = length ns"
  by (cases s) (simp_all add: none_update_def ema_smoother_update_def)

lemma merge_blend:
  assumes "\<not> isnan_all (h ! last_arr c)" and "length cur = length (h ! last_arr c)"
  shows "merge c h cur =
    Inr (length h, c\<lparr>last_arr := length h\<rparr>,
      h @ [put (h ! last_arr c) (vis_mask cur (vis_thresh c))
         (strategy_update (smoother c)
            (pick (h ! last_arr c) (vis_mask cur (vis_thresh c)))
            (pick cur (vis_mask cur (vis_thresh c))))])"
proof (cases "list_ex id (vis_mask cur (vis_thresh c))")
  case True
  have "length (strategy_update (smoother c)
            (pick (h ! last_arr c) (vis_mask cur (vis_thresh c)))
            (pick cur (vis_mask cur (vis_thresh c))))
        = length (filter id (vis_mask cur (vis_thresh c)))"
    using assms(2) by (simp add: length_strategy_update length_pick length_vis_mask)
  then show ?thesis
    using assms True
    by (simp add: merge_def Let_def select_mask_def assign_mask_def length_vis_mask)
next
  case False
  then show ?thesis
    using assms by (simp add: merge_def Let_def put_none)
qed

lemma put_strategy_nth:
  assumes "length a = length m" and "length d = length m" and "k < length m"
  shows "put a m (strategy_update s (pick a m) (pick d m)) ! k =
     (if m ! k
      then (case s of NoSmoothing \<Rightarrow> d ! k
            | EmaSmoother al \<Rightarrow> row_map2 (ema_entry al) (a ! k) (d ! k))
      else a ! k)"
proof (cases s)
  case NoSmoothing
  then show ?thesis
    using assms by (simp add: none_update_def put_pick_nth)
next
  case (EmaSmoother al)
  have "put a m (pick (map2 (row_map2 (ema_entry al)) a d) m) ! k =
      (if m ! k then map2 (row_map2 (ema_entry al)) a d ! k else a ! k)"
    using assms by (intro put_pick_nth) simp_all
  then show ?thesis
    using assms EmaSmoother by (simp add: ema_smoother_update_def pick_map2)
qed

lemma isnan_all_nth: "isnan_all a \<Longrightarrow> k < length a \<Longrightarrow> a ! k = nan_row"
proof -
  assume "isnan_all a" and "k < length a"
  then have "row_all isnan (a ! k)"
    by (simp add: isnan_all_def list_all_length)
  then show ?thesis
    by (cases "a ! k" rule: prod_cases4) (auto simp: nan_row_def elim: isnan.elims)
qed

lemma f_lt_not_ge: "f_lt v t \<Longrightarrow> \<not> f_ge v t"
  by (cases v) auto

lemma f_ge_not_nan: "f_ge v t \<Longrightarrow> \<not> isnan v"
  by (cases v) auto

lemma merge_rejected_row:
  assumes "last_arr c < length h" and "length cur = length (h ! last_arr c)"
    and "k < length cur" and "\<not> f_ge (col_vis (cur ! k)) (vis_thresh c)"
  shows "\<exists>r c' h'. merge c h cur = Inr (r, c', h') \<and> r = last_arr c' \<and> r < length h' \<and>
           length (h' ! r) = length cur \<and> h' ! r ! k = h ! last_arr c ! k"
proof (cases "isnan_all (h ! last_arr c)")
  case True
  show ?thesis
    using assms merge_seed[OF True assms(2)]
    by (simp add: length_put put_pick_nth length_vis_mask vis_mask_nth)
next
  case False
  show ?thesis
    using assms merge_blend[OF False assms(2)]
    by (simp add: length_put put_strategy_nth length_vis_mask vis_mask_nth nth_append)
qed

lemma merge_seed_rows:
  assumes "last_arr c < length h" and "isnan_all (h ! last_arr c)"
    and "length cur = length (h ! last_arr c)"
  shows "\<exists>h'. merge c h cur = Inr (last_arr c, c, h') \<and> length h' = length h \<and>
           length (h' ! last_arr c) = length cur \<and>
           (\<forall>k<length cur. h' ! last_arr c ! k =
              (if f_ge (col_vis (cur ! k)) (vis_thresh c) then cur ! k else nan_row))"
  using assms merge_seed[OF assms(2) assms(3)]
  by (simp add: length_put put_pick_nth length_vis_mask vis_mask_nth isnan_all_nth)

lemma accepted_row_known: "f_ge (col_vis r) t \<Longrightarrow> \<not> row_all isnan r"
  by (cases r rule: prod_cases4) (auto dest: f_ge_not_nan)

lemma ema_entry_known: "ema_entry al (Fin p) n = f_add (f_scale (1 - al) (Fin p)) (f_scale al n)"
  by (simp add: ema_entry_def)

lemma col_row_map2:
  "col_x (row_map2 f p n) = f (col_x p) (col_x n)"
  "col_y (row_map2 f p n) = f (col_y p) (col_y n)"
  "col_z (row_map2 f p n) = f (col_z p) (col_z n)"
  "col_vis (row_map2 f p n) = f (col_vis p) (col_vis n)"
  by (cases p rule: prod_cases4; cases n rule: prod_cases4; simp)+

lemma merge_accepted_row:
  assumes "last_arr c < length h" and "length cur = length (h ! last_arr c)"
    and "k < length cur" and "f_ge (col_vis (cur ! k)) (vis_thresh c)"
    and "\<not> isnan_all (h ! last_arr c)"
  shows "merge c h cur = Inr (length h, c\<lparr>last_arr := length h\<rparr>,
           h @ [put (h ! last_arr c) (vis_mask cur (vis_thresh c))
         (strategy_update (smoother c)
            (pick (h ! last_arr c) (vis_mask cur (vis_thresh c)))
            (pick cur (vis_mask cur (vis_thresh c))))]) \<and>
     put (h ! last_arr c) (vis_mask cur (vis_thresh c))
         (strategy_update (smoother c)
            (pick (h ! last_arr c) (vis_mask cur (vis_thresh c)))
            (pick cur (vis_mask cur (vis_thresh c)))) ! k =
       (case smoother c of NoSmoothing \<Rightarrow> cur ! k
        | EmaSmoother al \<Rightarrow> row_map2 (ema_entry al) (h ! last_arr c ! k) (cur ! k))"
  using assms merge_blend[OF assms(5) assms(2)]
  by (simp add: put_strategy_nth length_vis_mask vis_mask_nth)

section \<open>The merge of \<^verbatim>\<open>server.py\<close>: results\<close>

text \<open>
  \<^verbatim>\<open>ema_update\<close> adopts \<open>new\<close> where \<open>prev\<close> is NaN and blends elsewhere, and
  \<^verbatim>\<open>merge_frame\<close> holds rejected rows, seeds the all-unknown state, adopts a row
  accepted for the first time as it is, and returns a copy from its seeding branch.
\<close>

lemma ema_update_entry_unknown: "ema_update_entry al NaN n = n"
  by (simp add: ema_update_entry_def)

lemma ema_update_entry_known:
  "\<not> isnan p \<Longrightarrow> ema_update_entry al p n = f_add (f_scale (1 - al) p) (f_scale al n)"
  by (simp add: ema_update_entry_def)

lemma ema_update_nth:
  assumes "length prev = length new" and "k < length new"
  shows "ema_update prev new al ! k = row_map2 (ema_update_entry al) (prev ! k) (new ! k)"
  using assms by (simp add: ema_update_def)

lemma ema_update_unknown_row: "row_map2 (ema_update_entry al) nan_row n = n"
  by (cases n rule: prod_cases4) (simp add: nan_row_def ema_update_entry_unknown)

lemma put_ema_update_nth:
  assumes "length a = length m" and "length d = length m" and "k < length m"
  shows "put a m (ema_update (pick a m) (pick d m) al) ! k =
     (if m ! k then row_map2 (ema_update_entry al) (a ! k) (d ! k) else a ! k)"
proof -
  have "put a m (pick (map2 (row_map2 (ema_update_entry al)) a d) m) ! k =
      (if m ! k then map2 (row_map2 (ema_update_entry al)) a d ! k else a ! k)"
    using assms by (intro put_pick_nth) simp_all
  then show ?thesis
    using assms by (simp add: ema_update_def pick_map2)
qed

lemma merge_frame_seed:
  assumes "isnan_all (h ! lg)" and "length cur = length (h ! lg)"
  shows "merge_frame lg h cur =
    Inr ((length h, vis_mask cur VIS_THRESH), lg,
      h[lg := put (h ! lg) (vis_mask cur VIS_THRESH) (pick cur (vis_mask cur VIS_THRESH))]
      @ [put (h ! lg) (vis_mask cur VIS_THRESH) (pick cur (vis_mask cur VIS_THRESH))])"
  using assms
  by (simp add: merge_frame_def Let_def select_mask_def assign_mask_def length_vis_mask
      length_pick)

lemma merge_frame_blend:
  assumes "\<not> isnan_all (h ! lg)" and "length cur = length (h ! lg)"
  shows "merge_frame lg h cur =
    Inr ((length h, vis_mask cur VIS_THRESH), length h,
      h @ [put (h ! lg) (vis_mask cur VIS_THRESH)
         (ema_update (pick (h ! lg) (vis_mask cur VIS_THRESH))
            (pick cur (vis_mask cur VIS_THRESH)) EMA_ALPHA)])"
proof -
  have "length (ema_update (pick (h ! lg) (vis_mask cur VIS_THRESH))
            (pick cur (vis_mask cur VIS_THRESH)) EMA_ALPHA)
        = length (filter id (vis_mask cur VIS_THRESH))"
    using assms(2) by (simp add: ema_update_def length_pick length_vis_mask)
  then show ?thesis
    using assms
    by (simp add: merge_frame_def Let_def select_mask_def assign_mask_def length_vis_mask
        USE_SMOOTHING_def)
qed

lemma merge_frame_holds_last_good:
  assumes "lg < length h" and "length (h ! lg) = 33" and "length cur = 33" and "k < 33"
    and "\<not> row_all isnan (h ! lg ! k)" and "f_lt (col_vis (cur ! k)) VIS_THRESH"
  shows "\<exists>r msk lg' h'. merge_frame lg h cur = Inr ((r, msk), lg', h') \<and>
           h' ! lg' ! k = h ! lg ! k \<and> h' ! r ! k = h ! lg ! k"
proof -
  have rej: "\<not> f_ge (col_vis (cur ! k)) VIS_THRESH"
    using assms(6) by (rule f_lt_not_ge)
  have "\<not> isnan_all (h ! lg)"
    using assms(2,4,5) isnan_all_nth[of "h ! lg" k] by (auto simp: nan_row_def)
  then show ?thesis
    using assms rej merge_frame_blend[of h lg cur]
    by (simp add: put_ema_update_nth length_vis_mask vis_mask_nth)
qed

lemma merge_frame_seeds:
  assumes "lg < length h" and "length (h ! lg) = 33" and "isnan_all (h ! lg)"
    and "length cur = 33"
  shows "\<exists>msk h'. merge_frame lg h cur = Inr ((length h, msk), lg, h') \<and>
           h' ! length h = h' ! lg \<and>
           (\<forall>k<33. h' ! lg ! k =
              (if f_ge (col_vis (cur ! k)) VIS_THRESH then cur ! k else nan_row))"
  using assms merge_frame_seed[of h lg cur]
  by (simp add: nth_append length_put put_pick_nth length_vis_mask vis_mask_nth isnan_all_nth)

lemma merge_frame_first_acceptance:
  assumes "lg < length h" and "length (h ! lg) = 33" and "length cur = 33" and "k < 33"
    and "h ! lg ! k = nan_row" and "f_ge (col_vis (cur ! k)) VIS_THRESH"
  shows "\<exists>r msk lg' h'. merge_frame lg h cur = Inr ((r, msk), lg', h') \<and>
           h' ! lg' ! k = cur ! k \<and> h' ! r ! k = cur ! k"
proof (cases "isnan_all (h ! lg)")
  case True
  then show ?thesis
    using assms merge_frame_seeds[of lg h cur] by auto
next
  case False
  then show ?thesis
    using assms merge_frame_blend[of h lg cur]
    by (simp add: put_ema_update_nth length_vis_mask vis_mask_nth ema_update_unknown_row)
qed

lemma merge_frame_seed_returns_copy:
  assumes "lg < length h" and "isnan_all (h ! lg)" and "length cur = length (h ! lg)"
  shows "\<exists>msk h'. merge_frame lg h cur = Inr ((length h, msk), lg, h') \<and> length h \<noteq> lg \<and>
           h' ! length h = h' ! lg"
  using assms merge_frame_seed[of h lg cur]
  by (simp add: nth_append)

section \<open>The merge engine: claims\<close>

text \<open>
  Claim C2 (hold-last-good). Let the controller's stored state and the incoming frame
  have 33 rows each. If landmark \<open>k\<close> is not unknown in the stored state and the frame's
  visibility at \<open>k\<close> is below the threshold, then \<^verbatim>\<open>_merge\<close> returns, and in the
  state it stores (which is the array it returns) landmark \<open>k\<close> is exactly the row stored
  before: it does not become unknown.
\<close>

theorem merge_holds_last_good:
  assumes "last_arr c < length h" and "length (h ! last_arr c) = 33" and "length cur = 33"
    and "k < 33" and "\<not> row_all isnan (h ! last_arr c ! k)"
    and "f_lt (col_vis (cur ! k)) (vis_thresh c)"
  shows "\<exists>r c' h'. merge c h cur = Inr (r, c', h') \<and> r = last_arr c' \<and>
           h' ! last_arr c' ! k = h ! last_arr c ! k \<and> \<not> row_all isnan (h' ! last_arr c' ! k)"
proof -
  have "\<not> f_ge (col_vis (cur ! k)) (vis_thresh c)"
    using assms(6) by (rule f_lt_not_ge)
  with assms obtain r c' h' where
    "merge c h cur = Inr (r, c', h')" "r = last_arr c'" "h' ! r ! k = h ! last_arr c ! k"
    using merge_rejected_row[of c h cur k] by auto
  with assms(5) show ?thesis by auto
qed

text \<open>
  At the state seeded by \<open>frame_a\<close> and the frame \<open>frame_c\<close>, whose landmark 0 has
  visibility 0: landmark 0 stays as it was.
\<close>

theorem merge_holds_last_good_witness:
  "last_arr ctrl_ema < length [seeded_a] \<and> length ([seeded_a] ! last_arr ctrl_ema) = 33 \<and>
   length frame_c = 33 \<and> \<not> row_all isnan ([seeded_a] ! last_arr ctrl_ema ! 0) \<and>
   f_lt (col_vis (frame_c ! 0)) (vis_thresh ctrl_ema) \<and>
   merge ctrl_ema [seeded_a] frame_c =
     Inr (1, ctrl_ema\<lparr>last_arr := 1\<rparr>,
       [seeded_a,
        (Fin 1, Fin 1, Fin 1, Fin 0.9) # (Fin 0.7, Fin 0.7, Fin 0.7, Fin 0.315)
          # replicate 31 nan_row]) \<and>
   ((Fin 1, Fin 1, Fin 1, Fin 0.9) # (Fin 0.7, Fin 0.7, Fin 0.7, Fin 0.315)
          # replicate 31 nan_row) ! 0 = seeded_a ! 0"
proof -
  have a1: "last_arr ctrl_ema < length [seeded_a]"
    by (simp add: ctrl_ema_def)
  have a2: "length ([seeded_a] ! last_arr ctrl_ema) = 33"
    by (simp add: ctrl_ema_def seeded_a_def)
  have a3: "length frame_c = 33"
    by (simp add: frame_c_def)
  have a4: "(0::nat) < 33"
    by simp
  have a5: "\<not> row_all isnan ([seeded_a] ! last_arr ctrl_ema ! 0)"
    by (simp add: ctrl_ema_def seeded_a_def)
  have a6: "f_lt (col_vis (frame_c ! 0)) (vis_thresh ctrl_ema)"
    by (simp add: ctrl_ema_def frame_c_def zero_row_def)
  have ev: "merge ctrl_ema [seeded_a] frame_c =
     Inr (1, ctrl_ema\<lparr>last_arr := 1\<rparr>,
       [seeded_a,
        (Fin 1, Fin 1, Fin 1, Fin 0.9) # (Fin 0.7, Fin 0.7, Fin 0.7, Fin 0.315)
          # replicate 31 nan_row])"
    by code_simp
  from merge_holds_last_good[OF a1 a2 a3 a4 a5 a6] obtain r c' h' where
    m: "merge ctrl_ema [seeded_a] frame_c = Inr (r, c', h')"
    and same: "h' ! last_arr c' ! 0 = [seeded_a] ! last_arr ctrl_ema ! 0"
    by blast
  from m ev have "Inr (r, c', h') =
     (Inr (1, ctrl_ema\<lparr>last_arr := 1\<rparr>,
       [seeded_a,
        (Fin 1, Fin 1, Fin 1, Fin 0.9) # (Fin 0.7, Fin 0.7, Fin 0.7, Fin 0.315)
          # replicate 31 nan_row]) :: py_error + (nat \<times> controller \<times> heap))"
    by (rule subst)
  then have "c' = ctrl_ema\<lparr>last_arr := 1\<rparr>"
    and "h' = [seeded_a,
        (Fin 1, Fin 1, Fin 1, Fin 0.9) # (Fin 0.7, Fin 0.7, Fin 0.7, Fin 0.315)
          # replicate 31 nan_row]"
    by blast+
  with same have r0: "((Fin 1, Fin 1, Fin 1, Fin 0.9) # (Fin 0.7, Fin 0.7, Fin 0.7, Fin 0.315)
          # replicate 31 nan_row) ! 0 = seeded_a ! 0"
    by (simp add: ctrl_ema_def)
  show ?thesis
    using a1 a2 a3 a5 a6 ev r0 by simp
qed

text \<open>
  Claim C4 (seeding). Let the controller's stored state be all-unknown and the incoming
  frame have 33 rows. Then \<^verbatim>\<open>_merge\<close> returns, and in the store every landmark whose
  incoming visibility is at or above the threshold is the incoming row, copied as it is,
  and every other landmark is unknown. In particular, when landmark \<open>j\<close> is the only one
  at or above the threshold, landmark \<open>j\<close> is populated and the 32 others are unknown.
\<close>

theorem merge_seeds:
  assumes "last_arr c < length h" and "length (h ! last_arr c) = 33"
    and "isnan_all (h ! last_arr c)" and "length cur = 33"
  shows "\<exists>h'. merge c h cur = Inr (last_arr c, c, h') \<and> length (h' ! last_arr c) = 33 \<and>
           (\<forall>k<33. h' ! last_arr c ! k =
              (if f_ge (col_vis (cur ! k)) (vis_thresh c) then cur ! k else nan_row)) \<and>
           (\<forall>j<33. (\<forall>k<33. f_ge (col_vis (cur ! k)) (vis_thresh c) = (k = j)) \<longrightarrow>
              h' ! last_arr c ! j = cur ! j \<and> \<not> row_all isnan (h' ! last_arr c ! j) \<and>
              (\<forall>k<33. k \<noteq> j \<longrightarrow> h' ! last_arr c ! k = nan_row))"
proof -
  obtain h' where m: "merge c h cur = Inr (last_arr c, c, h')"
    and len: "length (h' ! last_arr c) = length cur"
    and rows: "\<forall>k<length cur. h' ! last_arr c ! k =
              (if f_ge (col_vis (cur ! k)) (vis_thresh c) then cur ! k else nan_row)"
    using merge_seed_rows[of c h cur] assms by auto
  have one: "h' ! last_arr c ! j = cur ! j \<and> \<not> row_all isnan (h' ! last_arr c ! j) \<and>
              (\<forall>k<33. k \<noteq> j \<longrightarrow> h' ! last_arr c ! k = nan_row)"
    if "j < 33" and only: "\<forall>k<33. f_ge (col_vis (cur ! k)) (vis_thresh c) = (k = j)" for j
  proof -
    have acc: "f_ge (col_vis (cur ! j)) (vis_thresh c)"
      using that by simp
    have "h' ! last_arr c ! j = cur ! j"
      using rows acc \<open>j < 33\<close> assms(4) by simp
    moreover have "\<not> row_all isnan (cur ! j)"
      using acc by (rule accepted_row_known)
    moreover have "\<forall>k<33. k \<noteq> j \<longrightarrow> h' ! last_arr c ! k = nan_row"
      using rows only assms(4) by simp
    ultimately show ?thesis by simp
  qed
  show ?thesis
    using m len rows one assms(4) by auto
qed

text \<open>The all-unknown state and \<open>frame_a\<close>, in which only landmark 0 is visible.\<close>

theorem merge_seeds_witness:
  "last_arr ctrl_ema < length [full_nan] \<and> length ([full_nan] ! last_arr ctrl_ema) = 33 \<and>
   isnan_all ([full_nan] ! last_arr ctrl_ema) \<and> length frame_a = 33 \<and>
   merge ctrl_ema [full_nan] frame_a = Inr (0, ctrl_ema, [seeded_a]) \<and>
   seeded_a ! 0 = frame_a ! 0 \<and> seeded_a ! 1 = nan_row"
proof -
  have a1: "last_arr ctrl_ema < length [full_nan]"
    by (simp add: ctrl_ema_def)
  have a2: "length ([full_nan] ! last_arr ctrl_ema) = 33"
    by (simp add: ctrl_ema_def full_nan_def)
  have a3: "isnan_all ([full_nan] ! last_arr ctrl_ema)"
    by (simp add: ctrl_ema_def full_nan_def isnan_all_def nan_row_def list_all_iff)
  have a4: "length frame_a = 33"
    by (simp add: frame_a_def)
  have ev: "merge ctrl_ema [full_nan] frame_a = Inr (0, ctrl_ema, [seeded_a])"
    by code_simp
  from merge_seeds[OF a1 a2 a3 a4] obtain h' where
    m: "merge ctrl_ema [full_nan] frame_a = Inr (last_arr ctrl_ema, ctrl_ema, h')"
    and rows: "\<forall>k<33. h' ! last_arr ctrl_ema ! k =
       (if f_ge (col_vis (frame_a ! k)) (vis_thresh ctrl_ema) then frame_a ! k else nan_row)"
    by blast
  from m ev have h': "h' = [seeded_a]" by simp
  have r0: "seeded_a ! 0 = frame_a ! 0"
    using rows[rule_format, of 0] h' by (simp add: ctrl_ema_def frame_a_def)
  have r1: "seeded_a ! 1 = nan_row"
    using rows[rule_format, of 1] h' by (simp add: ctrl_ema_def frame_a_def zero_row_def)
  show ?thesis
    using a1 a2 a3 a4 ev r0 r1 by simp
qed

text \<open>
  Claim C3, amended. The strategy is applied to the whole accepted rows, visibility
  included. For a landmark \<open>k\<close> whose incoming visibility is at or above the threshold,
  \<^verbatim>\<open>_merge\<close> returns and the stored row is: the incoming row when the merge seeds
  or the strategy is the pass-through one; under EMA with \<open>alpha\<close>, in each of the four
  channels whose previous value is a finite \<open>p\<close>, the blend
  \<open>(1 - alpha) * p + alpha * new\<close>, so the stored visibility is a blend as well.
\<close>

theorem merge_smooths_whole_rows:
  assumes "last_arr c < length h" and "length (h ! last_arr c) = 33" and "length cur = 33"
    and "k < 33" and "f_ge (col_vis (cur ! k)) (vis_thresh c)"
  shows "\<exists>r c' h'. merge c h cur = Inr (r, c', h') \<and> r = last_arr c' \<and>
    (isnan_all (h ! last_arr c) \<or> smoother c = NoSmoothing \<longrightarrow> h' ! r ! k = cur ! k) \<and>
    (\<forall>al. \<not> isnan_all (h ! last_arr c) \<and> smoother c = EmaSmoother al \<longrightarrow>
       (\<forall>p. col_x (h ! last_arr c ! k) = Fin p \<longrightarrow>
          col_x (h' ! r ! k) = f_add (f_scale (1 - al) (Fin p)) (f_scale al (col_x (cur ! k)))) \<and>
       (\<forall>p. col_y (h ! last_arr c ! k) = Fin p \<longrightarrow>
          col_y (h' ! r ! k) = f_add (f_scale (1 - al) (Fin p)) (f_scale al (col_y (cur ! k)))) \<and>
       (\<forall>p. col_z (h ! last_arr c ! k) = Fin p \<longrightarrow>
          col_z (h' ! r ! k) = f_add (f_scale (1 - al) (Fin p)) (f_scale al (col_z (cur ! k)))) \<and>
       (\<forall>p. col_vis (h ! last_arr c ! k) = Fin p \<longrightarrow>
          col_vis (h' ! r ! k) =
            f_add (f_scale (1 - al) (Fin p)) (f_scale al (col_vis (cur ! k)))))"
proof (cases "isnan_all (h ! last_arr c)")
  case True
  then obtain h' where "merge c h cur = Inr (last_arr c, c, h')"
    and "\<forall>k<length cur. h' ! last_arr c ! k =
              (if f_ge (col_vis (cur ! k)) (vis_thresh c) then cur ! k else nan_row)"
    using merge_seed_rows[of c h cur] assms by auto
  then show ?thesis
    using True assms by auto
next
  case False
  let ?a = "put (h ! last_arr c) (vis_mask cur (vis_thresh c))
         (strategy_update (smoother c)
            (pick (h ! last_arr c) (vis_mask cur (vis_thresh c)))
            (pick cur (vis_mask cur (vis_thresh c))))"
  have m: "merge c h cur = Inr (length h, c\<lparr>last_arr := length h\<rparr>, h @ [?a])"
    and row: "?a ! k = (case smoother c of NoSmoothing \<Rightarrow> cur ! k
        | EmaSmoother al \<Rightarrow> row_map2 (ema_entry al) (h ! last_arr c ! k) (cur ! k))"
    using merge_accepted_row[of c h cur k] assms False by simp_all
  have "(h @ [?a]) ! length h ! k = ?a ! k"
    by simp
  with m row False show ?thesis
    by (auto simp: col_row_map2 ema_entry_known)
qed

text \<open>The state \<open>seeded_a\<close> and \<open>frame_b\<close>: landmark 0 is accepted, its row is blended.\<close>

theorem merge_smooths_whole_rows_witness:
  "last_arr ctrl_ema < length [seeded_a] \<and> length ([seeded_a] ! last_arr ctrl_ema) = 33 \<and>
   length frame_b = 33 \<and> f_ge (col_vis (frame_b ! 0)) (vis_thresh ctrl_ema) \<and>
   \<not> isnan_all ([seeded_a] ! last_arr ctrl_ema) \<and> smoother ctrl_ema = EmaSmoother 0.35 \<and>
   col_vis ([seeded_a] ! last_arr ctrl_ema ! 0) = Fin 0.9 \<and>
   merge ctrl_ema [seeded_a] frame_b =
     Inr (1, ctrl_ema\<lparr>last_arr := 1\<rparr>, [seeded_a, blended_b]) \<and>
   col_vis ([seeded_a, blended_b] ! 1 ! 0) =
     f_add (f_scale (1 - 0.35) (Fin 0.9)) (f_scale 0.35 (col_vis (frame_b ! 0)))"
proof -
  have a1: "last_arr ctrl_ema < length [seeded_a]"
    by (simp add: ctrl_ema_def)
  have a2: "length ([seeded_a] ! last_arr ctrl_ema) = 33"
    by (simp add: ctrl_ema_def seeded_a_def)
  have a3: "length frame_b = 33"
    by (simp add: frame_b_def)
  have a4: "(0::nat) < 33"
    by simp
  have a5: "f_ge (col_vis (frame_b ! 0)) (vis_thresh ctrl_ema)"
    by (simp add: ctrl_ema_def frame_b_def)
  have b1: "\<not> isnan_all ([seeded_a] ! last_arr ctrl_ema)"
    by (simp add: ctrl_ema_def seeded_a_def isnan_all_def)
  have b2: "smoother ctrl_ema = EmaSmoother 0.35"
    by (simp add: ctrl_ema_def)
  have b3: "col_vis ([seeded_a] ! last_arr ctrl_ema ! 0) = Fin 0.9"
    by (simp add: ctrl_ema_def seeded_a_def)
  have ev: "merge ctrl_ema [seeded_a] frame_b =
     Inr (1, ctrl_ema\<lparr>last_arr := 1\<rparr>, [seeded_a, blended_b])"
    by code_simp
  from merge_smooths_whole_rows[OF a1 a2 a3 a4 a5] obtain r c' h' where
    m: "merge ctrl_ema [seeded_a] frame_b = Inr (r, c', h')"
    and blend: "\<forall>al. \<not> isnan_all ([seeded_a] ! last_arr ctrl_ema) \<and>
        smoother ctrl_ema = EmaSmoother al \<longrightarrow>
        (\<forall>p. col_vis ([seeded_a] ! last_arr ctrl_ema ! 0) = Fin p \<longrightarrow>
          col_vis (h' ! r ! 0) =
            f_add (f_scale (1 - al) (Fin p)) (f_scale al (col_vis (frame_b ! 0))))"
    by blast
  from m ev have "Inr (r, c', h') =
     (Inr (1, ctrl_ema\<lparr>last_arr := 1\<rparr>, [seeded_a, blended_b])
        :: py_error + (nat \<times> controller \<times> heap))"
    by (rule subst)
  then have "r = 1" and "h' = [seeded_a, blended_b]"
    by blast+
  with blend b1 b2 b3 have v: "col_vis ([seeded_a, blended_b] ! 1 ! 0) =
     f_add (f_scale (1 - 0.35) (Fin 0.9)) (f_scale 0.35 (col_vis (frame_b ! 0)))"
    by blast
  show ?thesis
    using a1 a2 a3 a5 b1 b2 b3 ev v by blast
qed

text \<open>
  Claim C3 as stated fails: with EMA 0.35, the stored visibility 0.9 of landmark 0 and the
  accepted frame \<open>frame_b\<close> whose visibility at 0 is 0.7, the stored visibility after the
  merge is 0.83, not the incoming 0.7.
\<close>

theorem merge_blends_visibility_counterexample:
  "f_ge (col_vis (frame_b ! 0)) (vis_thresh ctrl_ema) \<and>
   merge ctrl_ema [seeded_a] frame_b =
     Inr (1, ctrl_ema\<lparr>last_arr := 1\<rparr>, [seeded_a, blended_b]) \<and>
   col_vis (seeded_a ! 0) = Fin 0.9 \<and>
   col_vis (frame_b ! 0) = Fin 0.7 \<and>
   col_vis (blended_b ! 0) = Fin 0.83 \<and>
   col_vis (blended_b ! 0) \<noteq> col_vis (frame_b ! 0)"
proof -
  have "merge ctrl_ema [seeded_a] frame_b =
     Inr (1, ctrl_ema\<lparr>last_arr := 1\<rparr>, [seeded_a, blended_b])"
    by code_simp
  then show ?thesis
    by (simp add: ctrl_ema_def frame_b_def seeded_a_def blended_b_def)
qed

text \<open>
  Claim C1 fails on \<^verbatim>\<open>EmaSmoother.update\<close>: where \<open>prev\<close> is NaN it returns
  \<open>alpha * new\<close>, not \<open>new\<close>. With alpha 0.35, the unknown row and the new row
  \<open>(1, 1, 1, 0.9)\<close> give \<open>(0.35, 0.35, 0.35, 0.315)\<close>; and through \<^verbatim>\<open>_merge\<close>,
  landmark 1 of \<open>frame_c\<close>, accepted for the first time into the state \<open>seeded_a\<close> where
  it is unknown, is stored as \<open>(0.7, 0.7, 0.7, 0.315)\<close> and not as the incoming
  \<open>(2, 2, 2, 0.9)\<close>. \<^verbatim>\<open>ema_update\<close> of \<^verbatim>\<open>server.py\<close> returns the new row.
\<close>

theorem ema_smoother_blends_unknown_with_zero:
  "ema_smoother_update 0.35 [nan_row] [(Fin 1, Fin 1, Fin 1, Fin 0.9)] =
     [(Fin 0.35, Fin 0.35, Fin 0.35, Fin 0.315)] \<and>
   ema_update [nan_row] [(Fin 1, Fin 1, Fin 1, Fin 0.9)] 0.35 =
     [(Fin 1, Fin 1, Fin 1, Fin 0.9)] \<and>
   seeded_a ! 1 = nan_row \<and>
   frame_c ! 1 = (Fin 2, Fin 2, Fin 2, Fin 0.9) \<and>
   merge ctrl_ema [seeded_a] frame_c =
     Inr (1, ctrl_ema\<lparr>last_arr := 1\<rparr>, [seeded_a, blended_c]) \<and>
   blended_c ! 1 = (Fin 0.7, Fin 0.7, Fin 0.7, Fin 0.315)"
proof -
  have "ema_smoother_update 0.35 [nan_row] [(Fin 1, Fin 1, Fin 1, Fin 0.9)] =
     [(Fin 0.35, Fin 0.35, Fin 0.35, Fin 0.315)]"
    by code_simp
  moreover have "ema_update [nan_row] [(Fin 1, Fin 1, Fin 1, Fin 0.9)] 0.35 =
     [(Fin 1, Fin 1, Fin 1, Fin 0.9)]"
    by code_simp
  moreover have "merge ctrl_ema [seeded_a] frame_c =
     Inr (1, ctrl_ema\<lparr>last_arr := 1\<rparr>, [seeded_a, blended_c])"
    by code_simp
  ultimately show ?thesis
    by (simp add: seeded_a_def frame_c_def blended_c_def)
qed




text \<open>
  The seeding branch of \<^verbatim>\<open>_merge\<close> returns \<^verbatim>\<open>self._last\<close> itself and writes it
  in place: after a first frame in which nothing is visible, the array returned (array 0,
  all-unknown) is rewritten by the next merge. \<^verbatim>\<open>merge_frame\<close> of
  \<^verbatim>\<open>server.py\<close> returns a copy there (\<open>merge_frame_seed_returns_copy\<close>).
\<close>

lemma merge_seeding_twice:
  "merge ctrl_ema [full_nan] frame_dark = Inr (0, ctrl_ema, [full_nan]) \<and>
   merge ctrl_ema [full_nan] frame_a = Inr (0, ctrl_ema, [seeded_a]) \<and>
   [seeded_a] ! 0 ! 0 \<noteq> [full_nan] ! 0 ! 0"
proof -
  have "merge ctrl_ema [full_nan] frame_dark = Inr (0, ctrl_ema, [full_nan])"
    by code_simp
  moreover have "merge ctrl_ema [full_nan] frame_a = Inr (0, ctrl_ema, [seeded_a])"
    by code_simp
  moreover have "[seeded_a] ! 0 ! 0 \<noteq> [full_nan] ! 0 ! 0"
    by code_simp
  ultimately show ?thesis by simp
qed

section \<open>The observable pose store: claims\<close>

lemma outcome_at_0: "outcome_at upd a (ob # obs) reg 0 = fst (upd ob a reg)"
  by (simp add: outcome_at_def)

lemma outcome_at_Suc:
  "outcome_at upd a (ob # obs) reg (Suc i) = outcome_at upd a obs (snd (upd ob a reg)) i"
  by (simp add: outcome_at_def)






text \<open>
  In general, the first raise that is not an \<^verbatim>\<open>Exception\<close> leaves \<^verbatim>\<open>notify\<close>
  after the calls up to and including the raising one.
\<close>

lemma notify_loop_interrupted:
  assumes "k < length obs"
    and "outcome_at upd (arr_ref m) obs (observers m) k = RaisedBase e"
    and "\<forall>i<k. \<forall>e'. outcome_at upd (arr_ref m) obs (observers m) i \<noteq> RaisedBase e'"
  shows "\<exists>cs'. notify_loop upd obs m cs ps =
        (Some e, m\<lparr>observers := registry_after upd (arr_ref m) (take (Suc k) obs) (observers m)\<rparr>,
         cs @ cs', ps @ List.map_filter failure_line cs') \<and>
      length cs' = Suc k \<and>
      (\<forall>i<Suc k. cs' ! i =
         (obs ! i, arr_ref m, outcome_at upd (arr_ref m) obs (observers m) i))"
  using assms
proof (induction obs arbitrary: k m cs ps)
  case Nil
  then show ?case by simp
next
  case (Cons ob obs)
  obtain r reg where u: "upd ob (arr_ref m) (observers m) = (r, reg)"
    by (cases "upd ob (arr_ref m) (observers m)")
  let ?m = "m\<lparr>observers := reg\<rparr>"
  have r0: "outcome_at upd (arr_ref m) (ob # obs) (observers m) 0 = r"
    using u by (simp add: outcome_at_0)
  have shift: "outcome_at upd (arr_ref m) (ob # obs) (observers m) (Suc i)
      = outcome_at upd (arr_ref ?m) obs (observers ?m) i" for i
    using u by (simp add: outcome_at_Suc)
  show ?case
  proof (cases k)
    case 0
    then have rb: "r = RaisedBase e"
      using Cons.prems(2) r0 by simp
    have "notify_loop upd (ob # obs) m cs ps =
        (Some e, m\<lparr>observers := registry_after upd (arr_ref m) (take (Suc k) (ob # obs)) (observers m)\<rparr>,
         cs @ [(ob, arr_ref m, r)], ps @ List.map_filter failure_line [(ob, arr_ref m, r)])"
      using u rb 0 by (simp add: List.map_filter_simps)
    moreover have "length [(ob, arr_ref m, r)] = Suc k"
      using 0 by simp
    moreover have "\<forall>i<Suc k. [(ob, arr_ref m, r)] ! i =
         ((ob # obs) ! i, arr_ref m, outcome_at upd (arr_ref m) (ob # obs) (observers m) i)"
      using 0 r0 by simp
    ultimately show ?thesis by blast
  next
    case (Suc j)
    have j: "j < length obs"
      using Cons.prems(1) Suc by simp
    have oj: "outcome_at upd (arr_ref ?m) obs (observers ?m) j = RaisedBase e"
      using Cons.prems(2) Suc shift[of j] by simp
    have before: "\<forall>i<j. \<forall>e'. outcome_at upd (arr_ref ?m) obs (observers ?m) i \<noteq> RaisedBase e'"
    proof (intro allI impI)
      fix i e'
      assume "i < j"
      then have "Suc i < k" using Suc by simp
      from Cons.prems(3)[rule_format, OF this, of e'] show
        "outcome_at upd (arr_ref ?m) obs (observers ?m) i \<noteq> RaisedBase e'"
        unfolding shift .
    qed
    have nb: "r \<noteq> RaisedBase e'" for e'
      using Cons.prems(3)[rule_format, of 0 e'] Suc r0 by simp
    have step: "\<exists>cs'. notify_loop upd obs ?m (cs @ [c]) ps2 =
        (Some e, ?m\<lparr>observers := registry_after upd (arr_ref ?m) (take (Suc j) obs) (observers ?m)\<rparr>,
         (cs @ [c]) @ cs', ps2 @ List.map_filter failure_line cs') \<and>
      length cs' = Suc j \<and>
      (\<forall>i<Suc j. cs' ! i =
         (obs ! i, arr_ref ?m, outcome_at upd (arr_ref ?m) obs (observers ?m) i))" for c ps2
      using j oj before by (rule Cons.IH)
    have reg_eq: "registry_after upd (arr_ref m) (take (Suc k) (ob # obs)) (observers m)
      = registry_after upd (arr_ref ?m) (take (Suc j) obs) (observers ?m)"
      using u Suc by simp
    have rows: "\<forall>i<Suc k. ((ob, arr_ref m, r) # cs') ! i =
         ((ob # obs) ! i, arr_ref m, outcome_at upd (arr_ref m) (ob # obs) (observers m) i)"
      if "\<forall>i<Suc j. cs' ! i =
         (obs ! i, arr_ref ?m, outcome_at upd (arr_ref ?m) obs (observers ?m) i)" for cs'
    proof (intro allI impI)
      fix i
      assume i: "i < Suc k"
      show "((ob, arr_ref m, r) # cs') ! i =
         ((ob # obs) ! i, arr_ref m, outcome_at upd (arr_ref m) (ob # obs) (observers m) i)"
      proof (cases i)
        case 0
        then show ?thesis using r0 by simp
      next
        case (Suc i')
        then have "i' < Suc j" using i \<open>k = Suc j\<close> by simp
        with that have "cs' ! i' =
         (obs ! i', arr_ref ?m, outcome_at upd (arr_ref ?m) obs (observers ?m) i')"
          by blast
        then show ?thesis
          using Suc shift[of i'] by simp
      qed
    qed
    show ?thesis
    proof (cases r)
      case Returned
      from step[of "(ob, arr_ref m, Returned)" ps] obtain cs' where
        n: "notify_loop upd obs ?m (cs @ [(ob, arr_ref m, Returned)]) ps =
          (Some e, ?m\<lparr>observers := registry_after upd (arr_ref ?m) (take (Suc j) obs) (observers ?m)\<rparr>,
           (cs @ [(ob, arr_ref m, Returned)]) @ cs', ps @ List.map_filter failure_line cs')"
        and l: "length cs' = Suc j"
        and c: "\<forall>i<Suc j. cs' ! i =
           (obs ! i, arr_ref ?m, outcome_at upd (arr_ref ?m) obs (observers ?m) i)"
        by blast
      have "notify_loop upd (ob # obs) m cs ps =
          (Some e, m\<lparr>observers := registry_after upd (arr_ref m) (take (Suc k) (ob # obs)) (observers m)\<rparr>,
           cs @ ((ob, arr_ref m, r) # cs'),
           ps @ List.map_filter failure_line ((ob, arr_ref m, r) # cs'))"
        using u Returned n reg_eq by (simp add: List.map_filter_simps)
      moreover have "length ((ob, arr_ref m, r) # cs') = Suc k"
        using l Suc by simp
      ultimately show ?thesis
        using rows[OF c] by blast
    next
      case (Raised x)
      from step[of "(ob, arr_ref m, Raised x)" "ps @ [''[Model] Observer failed: '' @ x]"]
      obtain cs' where
        n: "notify_loop upd obs ?m (cs @ [(ob, arr_ref m, Raised x)])
              (ps @ [''[Model] Observer failed: '' @ x]) =
          (Some e, ?m\<lparr>observers := registry_after upd (arr_ref ?m) (take (Suc j) obs) (observers ?m)\<rparr>,
           (cs @ [(ob, arr_ref m, Raised x)]) @ cs',
           (ps @ [''[Model] Observer failed: '' @ x]) @ List.map_filter failure_line cs')"
        and l: "length cs' = Suc j"
        and c: "\<forall>i<Suc j. cs' ! i =
           (obs ! i, arr_ref ?m, outcome_at upd (arr_ref ?m) obs (observers ?m) i)"
        by blast
      have "notify_loop upd (ob # obs) m cs ps =
          (Some e, m\<lparr>observers := registry_after upd (arr_ref m) (take (Suc k) (ob # obs)) (observers m)\<rparr>,
           cs @ ((ob, arr_ref m, r) # cs'),
           ps @ List.map_filter failure_line ((ob, arr_ref m, r) # cs'))"
        using u Raised n reg_eq by (simp add: List.map_filter_simps)
      moreover have "length ((ob, arr_ref m, r) # cs') = Suc k"
        using l Suc by simp
      ultimately show ?thesis
        using rows[OF c] by blast
    next
      case (RaisedBase x)
      with nb show ?thesis by blast
    qed
  qed
qed

lemma notify_interrupted:
  assumes "k < length (observers m)"
    and "outcome_at upd (arr_ref m) (observers m) (observers m) k = RaisedBase e"
    and "\<forall>i<k. \<forall>e'. outcome_at upd (arr_ref m) (observers m) (observers m) i \<noteq> RaisedBase e'"
  shows "\<exists>cs. notify upd m =
        (Some e,
         m\<lparr>observers := registry_after upd (arr_ref m) (take (Suc k) (observers m)) (observers m)\<rparr>,
         cs, List.map_filter failure_line cs) \<and>
      length cs = Suc k \<and>
      (\<forall>i<Suc k. cs ! i =
         (observers m ! i, arr_ref m, outcome_at upd (arr_ref m) (observers m) (observers m) i))"
  using notify_loop_interrupted[OF assms, of "[]" "[]"]
  by (simp add: notify_def)

text \<open>
  \<^verbatim>\<open>set\<close> keeps the reference it is given, without a copy, and every observer
  called is passed that same reference.
\<close>

lemma notify_loop_passes_ref:
  "\<exists>r m' cs' ps'. notify_loop upd obs m cs ps = (r, m', cs @ cs', ps') \<and>
     arr_ref m' = arr_ref m \<and> (\<forall>c \<in> set cs'. fst (snd c) = arr_ref m)"
proof (induction obs arbitrary: m cs ps)
  case Nil
  show ?case by simp
next
  case (Cons ob obs)
  obtain r reg where u: "upd ob (arr_ref m) (observers m) = (r, reg)"
    by (cases "upd ob (arr_ref m) (observers m)")
  let ?m = "m\<lparr>observers := reg\<rparr>"
  have step: "\<exists>r m' cs' ps'. notify_loop upd obs ?m (cs @ [c]) ps2 = (r, m', (cs @ [c]) @ cs', ps') \<and>
     arr_ref m' = arr_ref ?m \<and> (\<forall>c \<in> set cs'. fst (snd c) = arr_ref ?m)" for c ps2
    by (rule Cons.IH)
  show ?case
  proof (cases r)
    case Returned
    from step[of "(ob, arr_ref m, Returned)" ps] obtain r' m' cs' ps' where
      "notify_loop upd obs ?m (cs @ [(ob, arr_ref m, Returned)]) ps =
         (r', m', (cs @ [(ob, arr_ref m, Returned)]) @ cs', ps')"
      "arr_ref m' = arr_ref ?m" "\<forall>c \<in> set cs'. fst (snd c) = arr_ref ?m"
      by blast
    then have "notify_loop upd (ob # obs) m cs ps = (r', m', cs @ ((ob, arr_ref m, Returned) # cs'), ps') \<and>
     arr_ref m' = arr_ref m \<and> (\<forall>c \<in> set ((ob, arr_ref m, Returned) # cs'). fst (snd c) = arr_ref m)"
      using u Returned by simp
    then show ?thesis by blast
  next
    case (Raised e)
    from step[of "(ob, arr_ref m, Raised e)" "ps @ [''[Model] Observer failed: '' @ e]"]
    obtain r' m' cs' ps' where
      "notify_loop upd obs ?m (cs @ [(ob, arr_ref m, Raised e)])
          (ps @ [''[Model] Observer failed: '' @ e]) =
         (r', m', (cs @ [(ob, arr_ref m, Raised e)]) @ cs', ps')"
      "arr_ref m' = arr_ref ?m" "\<forall>c \<in> set cs'. fst (snd c) = arr_ref ?m"
      by blast
    then have "notify_loop upd (ob # obs) m cs ps = (r', m', cs @ ((ob, arr_ref m, Raised e) # cs'), ps') \<and>
     arr_ref m' = arr_ref m \<and> (\<forall>c \<in> set ((ob, arr_ref m, Raised e) # cs'). fst (snd c) = arr_ref m)"
      using u Raised by simp
    then show ?thesis by blast
  next
    case (RaisedBase e)
    have "notify_loop upd (ob # obs) m cs ps = (Some e, ?m, cs @ [(ob, arr_ref m, RaisedBase e)], ps) \<and>
     arr_ref ?m = arr_ref m \<and> (\<forall>c \<in> set [(ob, arr_ref m, RaisedBase e)]. fst (snd c) = arr_ref m)"
      using u RaisedBase by simp
    then show ?thesis by blast
  qed
qed

lemma set_arr_shares_reference:
  "\<exists>r m' cs ps. set_arr upd m a = (r, m', cs, ps) \<and> arr_ref m' = a \<and> get_arr m' = a \<and>
     (\<forall>c \<in> set cs. fst (snd c) = a)"
proof -
  from notify_loop_passes_ref[of upd "observers m" "m\<lparr>arr_ref := a\<rparr>" "[]" "[]"]
  obtain r m' cs ps where
    n: "notify_loop upd (observers m) (m\<lparr>arr_ref := a\<rparr>) [] [] = (r, m', [] @ cs, ps)"
    and k: "arr_ref m' = arr_ref (m\<lparr>arr_ref := a\<rparr>)"
    and c: "\<forall>c \<in> set cs. fst (snd c) = arr_ref (m\<lparr>arr_ref := a\<rparr>)"
    by blast
  have "set_arr upd m a = (r, m', cs, ps)"
    using n by (simp add: set_arr_def notify_def)
  moreover have "arr_ref m' = a" and "get_arr m' = a"
    using k by (simp_all add: get_arr_def)
  moreover have "\<forall>c \<in> set cs. fst (snd c) = a"
    using c by simp
  ultimately show ?thesis
    by blast
qed

lemma attach_appends: "observers (attach m ob) = observers m @ [ob]"
  by (simp add: attach_def)

lemma list_remove_absent: "x \<notin> set xs \<Longrightarrow> list_remove xs x = Inl ValueError"
proof (induction xs)
  case Nil
  show ?case by simp
next
  case (Cons y ys)
  from Cons.prems have "y \<noteq> x"
    by (metis list.set_intros(1))
  moreover from Cons.prems have "x \<notin> set ys"
    by (metis list.set_intros(2))
  ultimately show ?case
    using Cons.IH by simp
qed

lemma list_remove_present:
  "x \<in> set xs \<Longrightarrow>
   \<exists>pre post. xs = pre @ x # post \<and> x \<notin> set pre \<and> list_remove xs x = Inr (pre @ post)"
proof (induction xs)
  case Nil
  then show ?case by simp
next
  case (Cons y ys)
  show ?case
  proof (cases "y = x")
    case True
    have "y # ys = [] @ x # ys \<and> x \<notin> set [] \<and> list_remove (y # ys) x = Inr ([] @ ys)"
      using True by simp
    then show ?thesis
      by (intro exI[of _ "[]"] exI[of _ ys])
  next
    case False
    with Cons.prems have "x \<in> set ys" by simp
    with Cons.IH obtain pre post where
      p1: "ys = pre @ x # post" and p2: "x \<notin> set pre"
      and p3: "list_remove ys x = Inr (pre @ post)"
      by blast
    have q1: "y # ys = (y # pre) @ x # post"
      using p1 by simp
    have q2: "x \<notin> set (y # pre)"
      using p2 False by simp
    have q3: "list_remove (y # ys) x = Inr ((y # pre) @ post)"
      using p3 False by simp
    from q1 q2 q3 show ?thesis
      by (intro exI[of _ "y # pre"] exI[of _ post] conjI)
  qed
qed

text \<open>
  Claim C10. \<^verbatim>\<open>detach\<close> of an observer that is not attached raises
  \<^verbatim>\<open>ValueError\<close> and leaves the list of observers as it was; \<^verbatim>\<open>detach\<close>
  of an attached observer raises nothing and removes exactly its first occurrence.
\<close>

theorem detach_removes_first_or_raises:
  "(ob \<notin> set (observers m) \<longrightarrow> detach m ob = (Some ValueError, m)) \<and>
   (ob \<in> set (observers m) \<longrightarrow>
      (\<exists>pre post. observers m = pre @ ob # post \<and> ob \<notin> set pre \<and>
         detach m ob = (None, m\<lparr>observers := pre @ post\<rparr>)))"
proof (intro conjI impI)
  assume "ob \<notin> set (observers m)"
  then have "list_remove (observers m) ob = Inl ValueError"
    by (rule list_remove_absent)
  then show "detach m ob = (Some ValueError, m)"
    by (simp add: detach_def)
next
  assume "ob \<in> set (observers m)"
  from list_remove_present[OF this] obtain pre post where
    p1: "observers m = pre @ ob # post" and p2: "ob \<notin> set pre"
    and p3: "list_remove (observers m) ob = Inr (pre @ post)"
    by blast
  have "detach m ob = (None, m\<lparr>observers := pre @ post\<rparr>)"
    using p3 by (simp add: detach_def)
  with p1 p2 show "\<exists>pre post. observers m = pre @ ob # post \<and> ob \<notin> set pre \<and>
         detach m ob = (None, m\<lparr>observers := pre @ post\<rparr>)"
    by (intro exI[of _ pre] exI[of _ post] conjI)
qed

text \<open>
  The model with observers 1, 2, 3, 2: detaching 5 raises, detaching 2 leaves 1, 3, 2.
\<close>

theorem detach_removes_first_or_raises_witness:
  "5 \<notin> set (observers model_1232) \<and>
   detach model_1232 5 = (Some ValueError, model_1232) \<and>
   2 \<in> set (observers model_1232) \<and>
   detach model_1232 2 = (None, model_1232\<lparr>observers := [1, 3, 2]\<rparr>)"
proof -
  have a1: "5 \<notin> set (observers model_1232)"
    by (simp add: model_1232_def)
  have a2: "2 \<in> set (observers model_1232)"
    by (simp add: model_1232_def)
  have r1: "detach model_1232 5 = (Some ValueError, model_1232)"
    using detach_removes_first_or_raises[of 5 model_1232] a1 by blast
  have r2: "detach model_1232 2 = (None, model_1232\<lparr>observers := [1, 3, 2]\<rparr>)"
    by code_simp
  show ?thesis
    using a1 a2 r1 r2 by blast
qed

section \<open>The payload adapter: claims\<close>

lemma nan_to_num_finite: "\<exists>r. nan_to_num v = Fin r"
  by (cases v) simp_all

lemma round_half_even_0: "round_half_even 0 = 0"
  by (simp add: round_half_even_def)

lemma py_round_0: "py_round 0 n = 0"
  by (simp add: py_round_def round_half_even_0)

lemma num_finite: "\<exists>r'. num cfg (Fin r) = Fin r'"
  by (cases "round_ndigits cfg") (simp_all add: num_def)

lemma num_zero: "num cfg (Fin 0) = Fin 0"
  by (cases "round_ndigits cfg") (simp_all add: num_def py_round_0)

lemma length_pose_item: "length (pose_item cfg i r) = 7"
  by (simp add: pose_item_def)

lemma join_items_nth:
  "(\<And>x. x \<in> set xs \<Longrightarrow> length x = 7) \<Longrightarrow> i < length xs \<Longrightarrow> j < 7 \<Longrightarrow>
   join_items xs ! (8 * i + j) = xs ! i ! j"
proof (induction xs arbitrary: i rule: join_items.induct)
  case 1
  then show ?case by simp
next
  case (2 x)
  then show ?case by simp
next
  case (3 x y xs)
  have lx: "length x = 7"
    using "3.prems"(1)[of x] by simp
  show ?case
  proof (cases i)
    case 0
    then show ?thesis
      using lx "3.prems"(3) by (simp add: nth_append)
  next
    case (Suc i')
    have ih: "join_items (y # xs) ! (8 * i' + j) = (y # xs) ! i' ! j"
      using "3.prems" Suc by (intro "3.IH") auto
    have "8 * i + j = 7 + (1 + (8 * i' + j))"
      using Suc by simp
    then have "join_items (x # y # xs) ! (8 * i + j) = join_items (y # xs) ! (8 * i' + j)"
      using lx by (simp add: nth_append)
    with ih Suc show ?thesis by simp
  qed
qed

lemma set_join_items:
  "p \<in> set (join_items xs) \<Longrightarrow> p = Lit '','' \<or> (\<exists>x \<in> set xs. p \<in> set x)"
  by (induction xs rule: join_items.induct) auto

lemma length_join_items:
  "(\<And>x. x \<in> set xs \<Longrightarrow> length x = 7) \<Longrightarrow> length (join_items xs) = 8 * length xs - 1"
proof (induction xs rule: join_items.induct)
  case 1
  show ?case by simp
next
  case (2 x)
  then show ?case by simp
next
  case (3 x y xs)
  have "length x = 7"
    using "3.prems"[of x] by simp
  moreover have "length (join_items (y # xs)) = 8 * length (y # xs) - 1"
    using "3.prems" by (intro "3.IH") auto
  ultimately show ?case by simp
qed

lemma col_row_map:
  "col_x (row_map f r) = f (col_x r)"
  "col_y (row_map f r) = f (col_y r)"
  "col_z (row_map f r) = f (col_z r)"
  by (cases r rule: prod_cases4; simp)+

lemma isnan_nan_to_num: "isnan v \<Longrightarrow> nan_to_num v = Fin 0"
  by (cases v) simp_all

lemma pose_item_nums:
  "Num v \<in> set (pose_item cfg i r) \<Longrightarrow>
   v = num cfg (col_x r) \<or> v = num cfg (col_y r) \<or> v = num cfg (col_z r)"
  by (auto simp: pose_item_def)

lemma pose_item_nth:
  "pose_item cfg i r ! 1 = Num (num cfg (col_x r))"
  "pose_item cfg i r ! 3 = Num (num cfg (col_y r))"
  "pose_item cfg i r ! 5 = Num (num cfg (col_z r))"
  by (simp_all add: pose_item_def)

lemma to_text_shape:
  assumes "33 \<le> length a"
  shows "to_text cfg ts a =
     Inr ([Lit (''{'' @ dq ''ts'' @ '':'' @ dq (ts @ ''Z'') @ '','' @ dq ''pose'' @ '':['')]
          @ join_items (map (\<lambda>i. pose_item cfg i
               ((if nan_to_zero cfg then map (row_map nan_to_num) a else a) ! i)) [0..<33])
          @ [Lit '']}''])"
  using assms by (simp add: to_text_def Let_def)

lemma text_piece_nth:
  assumes "i < 33" and "j < 7"
  shows "([hdr] @ join_items (map (\<lambda>i. pose_item cfg i (safe ! i)) [0..<33]) @ [ftr]) ! (8 * i + j + 1)
         = pose_item cfg i (safe ! i) ! j"
proof -
  let ?items = "map (\<lambda>i. pose_item cfg i (safe ! i)) [0..<33]"
  have all7: "\<And>x. x \<in> set ?items \<Longrightarrow> length x = 7"
    by (auto simp: length_pose_item)
  have len: "length (join_items ?items) = 8 * length ?items - 1"
    using all7 by (rule length_join_items)
  have li: "length ?items = 33"
    by simp
  have lt: "8 * i + j < length (join_items ?items)"
    using assms len li by simp
  have "join_items ?items ! (8 * i + j) = ?items ! i ! j"
    using all7 assms li by (intro join_items_nth) simp_all
  moreover have "?items ! i = pose_item cfg i (safe ! i)"
    using assms(1) by simp
  ultimately show ?thesis
    using lt by (simp add: nth_append)
qed

lemma num_unknown: "isnan v \<Longrightarrow> num cfg (nan_to_num v) = Fin 0"
  by (simp add: isnan_nan_to_num num_zero)

lemma text_piece_xyz:
  assumes "i < 33"
  shows "([hdr] @ join_items (map (\<lambda>i. pose_item cfg i (safe ! i)) [0..<33]) @ [ftr]) ! (8 * i + 2)
           = Num (num cfg (col_x (safe ! i)))"
    and "([hdr] @ join_items (map (\<lambda>i. pose_item cfg i (safe ! i)) [0..<33]) @ [ftr]) ! (8 * i + 4)
           = Num (num cfg (col_y (safe ! i)))"
    and "([hdr] @ join_items (map (\<lambda>i. pose_item cfg i (safe ! i)) [0..<33]) @ [ftr]) ! (8 * i + 6)
           = Num (num cfg (col_z (safe ! i)))"
proof -
  let ?t = "[hdr] @ join_items (map (\<lambda>i. pose_item cfg i (safe ! i)) [0..<33]) @ [ftr]"
  have x: "?t ! (8 * i + 1 + 1) = pose_item cfg i (safe ! i) ! 1"
    using assms by (intro text_piece_nth) simp_all
  have y: "?t ! (8 * i + 3 + 1) = pose_item cfg i (safe ! i) ! 3"
    using assms by (intro text_piece_nth) simp_all
  have z: "?t ! (8 * i + 5 + 1) = pose_item cfg i (safe ! i) ! 5"
    using assms by (intro text_piece_nth) simp_all
  have e: "8 * i + 1 + 1 = 8 * i + 2" "8 * i + 3 + 1 = 8 * i + 4" "8 * i + 5 + 1 = 8 * i + 6"
    by simp_all
  from x show "?t ! (8 * i + 2) = Num (num cfg (col_x (safe ! i)))"
    unfolding e by (simp only: pose_item_nth)
  from y show "?t ! (8 * i + 4) = Num (num cfg (col_y (safe ! i)))"
    unfolding e by (simp only: pose_item_nth)
  from z show "?t ! (8 * i + 6) = Num (num cfg (col_z (safe ! i)))"
    unfolding e by (simp only: pose_item_nth)
qed

text \<open>
  Claim C9. With the NaN-to-zero option on and a state of 33 rows, \<^verbatim>\<open>to_text\<close>
  returns a text in which every float literal is that of a finite number (none is
  \<^verbatim>\<open>NaN\<close>, \<^verbatim>\<open>Infinity\<close> or \<^verbatim>\<open>-Infinity\<close>), and in which the x, y and z
  of a landmark are written as 0.0 wherever the state holds NaN. The text is the opening
  piece, then seven pieces for each landmark with a comma piece between two landmarks,
  so the x, y and z literals of landmark \<open>i\<close> are the pieces \<open>8 * i + 2\<close>,
  \<open>8 * i + 4\<close> and \<open>8 * i + 6\<close>.
\<close>

theorem to_text_nan_to_zero:
  assumes "nan_to_zero cfg" and "length a = 33"
  shows "\<exists>t. to_text cfg ts a = Inr t \<and>
     (\<forall>v. Num v \<in> set t \<longrightarrow> (\<exists>r. v = Fin r)) \<and>
     (\<forall>i<33.
        t ! (8 * i + 2) = Num (num cfg (nan_to_num (col_x (a ! i)))) \<and>
        t ! (8 * i + 4) = Num (num cfg (nan_to_num (col_y (a ! i)))) \<and>
        t ! (8 * i + 6) = Num (num cfg (nan_to_num (col_z (a ! i)))) \<and>
        (isnan (col_x (a ! i)) \<longrightarrow> t ! (8 * i + 2) = Num (Fin 0)) \<and>
        (isnan (col_y (a ! i)) \<longrightarrow> t ! (8 * i + 4) = Num (Fin 0)) \<and>
        (isnan (col_z (a ! i)) \<longrightarrow> t ! (8 * i + 6) = Num (Fin 0)))"
proof -
  let ?safe = "map (row_map nan_to_num) a"
  let ?hdr = "Lit (''{'' @ dq ''ts'' @ '':'' @ dq (ts @ ''Z'') @ '','' @ dq ''pose'' @ '':['')"
  let ?items = "map (\<lambda>i. pose_item cfg i (?safe ! i)) [0..<33]"
  let ?t = "[?hdr] @ join_items ?items @ [Lit '']}'']"
  have tt: "to_text cfg ts a = Inr ?t"
    using assms to_text_shape[of a cfg ts] by simp
  have fin: "\<exists>r. v = Fin r" if "Num v \<in> set ?t" for v
  proof -
    from that have "Num v \<in> set (join_items ?items)"
      by simp
    then obtain x where "x \<in> set ?items" and "Num v \<in> set x"
      using set_join_items[of "Num v" ?items] by auto
    then obtain i where i: "i < 33" and "Num v \<in> set (pose_item cfg i (?safe ! i))"
      by auto
    then have "v = num cfg (col_x (?safe ! i)) \<or> v = num cfg (col_y (?safe ! i)) \<or>
               v = num cfg (col_z (?safe ! i))"
      by (intro pose_item_nums)
    moreover have "?safe ! i = row_map nan_to_num (a ! i)"
      using i assms(2) by simp
    ultimately have "v = num cfg (nan_to_num (col_x (a ! i))) \<or>
        v = num cfg (nan_to_num (col_y (a ! i))) \<or> v = num cfg (nan_to_num (col_z (a ! i)))"
      by (simp add: col_row_map)
    moreover obtain rx ry rz where "nan_to_num (col_x (a ! i)) = Fin rx"
      "nan_to_num (col_y (a ! i)) = Fin ry" "nan_to_num (col_z (a ! i)) = Fin rz"
      using nan_to_num_finite[of "col_x (a ! i)"] nan_to_num_finite[of "col_y (a ! i)"]
        nan_to_num_finite[of "col_z (a ! i)"] by blast
    ultimately show ?thesis
      using num_finite[of cfg rx] num_finite[of cfg ry] num_finite[of cfg rz] by auto
  qed
  have rows: "?t ! (8 * i + 2) = Num (num cfg (nan_to_num (col_x (a ! i)))) \<and>
        ?t ! (8 * i + 4) = Num (num cfg (nan_to_num (col_y (a ! i)))) \<and>
        ?t ! (8 * i + 6) = Num (num cfg (nan_to_num (col_z (a ! i))))" if i: "i < 33" for i
  proof -
    have s: "?safe ! i = row_map nan_to_num (a ! i)"
      using i assms(2) by simp
    show ?thesis
      using text_piece_xyz[OF i, of ?hdr cfg ?safe "Lit '']}''"]
      by (simp only: s col_row_map)
  qed
  have zero: "(isnan (col_x (a ! i)) \<longrightarrow> ?t ! (8 * i + 2) = Num (Fin 0)) \<and>
        (isnan (col_y (a ! i)) \<longrightarrow> ?t ! (8 * i + 4) = Num (Fin 0)) \<and>
        (isnan (col_z (a ! i)) \<longrightarrow> ?t ! (8 * i + 6) = Num (Fin 0))" if i: "i < 33" for i
  proof (intro conjI impI)
    assume "isnan (col_x (a ! i))"
    then have "Num (num cfg (nan_to_num (col_x (a ! i)))) = Num (Fin 0)"
      by (simp only: num_unknown)
    with rows[OF i] show "?t ! (8 * i + 2) = Num (Fin 0)"
      by (elim conjE) (rule trans)
  next
    assume "isnan (col_y (a ! i))"
    then have "Num (num cfg (nan_to_num (col_y (a ! i)))) = Num (Fin 0)"
      by (simp only: num_unknown)
    with rows[OF i] show "?t ! (8 * i + 4) = Num (Fin 0)"
      by (elim conjE) (rule trans)
  next
    assume "isnan (col_z (a ! i))"
    then have "Num (num cfg (nan_to_num (col_z (a ! i)))) = Num (Fin 0)"
      by (simp only: num_unknown)
    with rows[OF i] show "?t ! (8 * i + 6) = Num (Fin 0)"
      by (elim conjE) (rule trans)
  qed
  from tt fin rows zero show ?thesis
    by (intro exI[of _ ?t]) blast
qed

text \<open>
  The adapter of \<^verbatim>\<open>app.py\<close> on the state \<open>seeded_a\<close>: the x of landmark 1, which
  is unknown, is written as 0.0, and the x of landmark 0 as 1.0.
\<close>

theorem to_text_nan_to_zero_witness:
  "nan_to_zero app_adapter \<and> length seeded_a = 33 \<and> isnan (col_x (seeded_a ! 1)) \<and>
   (\<exists>t. to_text app_adapter ''2025-01-01T00:00:00'' seeded_a = Inr t \<and>
        t ! 10 = Num (Fin 0) \<and> t ! 2 = Num (Fin 1))"
proof -
  have a1: "nan_to_zero app_adapter"
    by (simp add: app_adapter_def)
  have a2: "length seeded_a = 33"
    by (simp add: seeded_a_def)
  have a3: "isnan (col_x (seeded_a ! 1))"
    by (simp add: seeded_a_def nan_row_def)
  have r: "py_round 1 4 = 1"
    by (simp add: py_round_def round_half_even_def Let_def)
  have n: "num app_adapter (nan_to_num (col_x (seeded_a ! 0))) = Fin 1"
    by (simp add: seeded_a_def app_adapter_def num_def r)
  from to_text_nan_to_zero[OF a1 a2, of "''2025-01-01T00:00:00''"] obtain t where
    t: "to_text app_adapter ''2025-01-01T00:00:00'' seeded_a = Inr t"
    and rows: "\<forall>i<33.
        t ! (8 * i + 2) = Num (num app_adapter (nan_to_num (col_x (seeded_a ! i)))) \<and>
        t ! (8 * i + 4) = Num (num app_adapter (nan_to_num (col_y (seeded_a ! i)))) \<and>
        t ! (8 * i + 6) = Num (num app_adapter (nan_to_num (col_z (seeded_a ! i)))) \<and>
        (isnan (col_x (seeded_a ! i)) \<longrightarrow> t ! (8 * i + 2) = Num (Fin 0)) \<and>
        (isnan (col_y (seeded_a ! i)) \<longrightarrow> t ! (8 * i + 4) = Num (Fin 0)) \<and>
        (isnan (col_z (seeded_a ! i)) \<longrightarrow> t ! (8 * i + 6) = Num (Fin 0))"
    by blast
  have i0: "(0::nat) < 33" and i1: "(1::nat) < 33"
    by simp_all
  from rows i1 have "isnan (col_x (seeded_a ! 1)) \<longrightarrow> t ! (8 * 1 + 2) = Num (Fin 0)"
    by blast
  with a3 have "t ! (8 * 1 + 2) = Num (Fin 0)"
    by blast
  then have t10: "t ! 10 = Num (Fin 0)"
    by simp
  from rows i0 have "t ! (8 * 0 + 2) = Num (num app_adapter (nan_to_num (col_x (seeded_a ! 0))))"
    by blast
  then have t2: "t ! 2 = Num (Fin 1)"
    unfolding n by (simp add: numeral_2_eq_2)
  from t t10 t2 have "\<exists>t. to_text app_adapter ''2025-01-01T00:00:00'' seeded_a = Inr t \<and>
        t ! 10 = Num (Fin 0) \<and> t ! 2 = Num (Fin 1)"
    by blast
  with a1 a2 a3 show ?thesis
    by blast
qed

section \<open>The broadcast server: claims\<close>

lemma to_text_nonempty: "to_text cfg ts a = Inr t \<Longrightarrow> t \<noteq> []"
  by (auto simp: to_text_def Let_def split: if_splits)

lemma ws_update_ok:
  "to_text (adapter v) ts a = Inr t \<Longrightarrow> ws_update v ts a = (None, v\<lparr>latest_text := Some t\<rparr>)"
  by (simp add: ws_update_def)

lemma ws_update_keeps: "clients (snd (ws_update v ts a)) = clients v"
  "adapter (snd (ws_update v ts a)) = adapter v"
  by (cases "to_text (adapter v) ts a"; simp add: ws_update_def)+

lemma ws_updates_keeps: "clients (ws_updates v us) = clients v \<and> adapter (ws_updates v us) = adapter v"
  by (induction v us rule: ws_updates.induct) (simp_all add: ws_update_keeps)

lemma ws_updates_snoc:
  "ws_updates v (us @ [(ts, a)]) = snd (ws_update (ws_updates v us) ts a)"
  by (induction v us rule: ws_updates.induct) simp_all

lemma ws_updates_last:
  assumes "us \<noteq> []" and "to_text (adapter v) (fst (last us)) (snd (last us)) = Inr t"
  shows "latest_text (ws_updates v us) = Some t"
proof -
  obtain us' ts a where us: "us = us' @ [(ts, a)]"
    using assms(1) by (metis append_butlast_last_id prod.collapse)
  then have "to_text (adapter (ws_updates v us')) ts a = Inr t"
    using assms(2) by (simp add: ws_updates_keeps)
  then have "ws_update (ws_updates v us') ts a =
      (None, (ws_updates v us')\<lparr>latest_text := Some t\<rparr>)"
    by (rule ws_update_ok)
  then show ?thesis
    using us by (simp add: ws_updates_snoc)
qed

lemma broadcast_tick_sends:
  assumes "latest_text v = Some t" and "t \<noteq> []"
  shows "broadcast_tick fails v =
     (map (\<lambda>c. (c, t, if fails c then SendFailed else Sent)) (clients v), v)"
  using assms by (cases "clients v = []") (simp_all add: broadcast_tick_def)

lemma one_send_each:
  assumes "distinct cs" and "c \<in> set cs"
  shows "length (filter (\<lambda>s. fst s = c) (map (\<lambda>c. (c, f c)) cs)) = 1"
  using assms
proof (induction cs)
  case Nil
  then show ?case by simp
next
  case (Cons d cs)
  show ?case
  proof (cases "d = c")
    case True
    then have "c \<notin> set cs"
      using Cons.prems(1) by simp
    then have "filter (\<lambda>s. fst s = c) (map (\<lambda>c. (c, f c)) cs) = []"
      by (auto simp: filter_empty_conv)
    then show ?thesis
      using True by simp
  next
    case False
    then have "c \<in> set cs"
      using Cons.prems(2) by simp
    then show ?thesis
      using Cons.IH Cons.prems(1) False by simp
  qed
qed

text \<open>
  Claim C6. The view holds one slot, \<open>latest_text\<close>, which every notification
  overwrites. After any non-empty run of notifications with no tick in between, the last
  of them with a state of 33 rows, the slot holds the adapter's text of that last state,
  and the next tick makes exactly one send to each connected client, of that text.
\<close>

theorem broadcast_sends_latest_only:
  assumes "us \<noteq> []" and "length (snd (last us)) = 33" and "distinct (clients v)"
  shows "\<exists>t. to_text (adapter v) (fst (last us)) (snd (last us)) = Inr t \<and>
     latest_text (ws_updates v us) = Some t \<and>
     fst (broadcast_tick fails (ws_updates v us)) =
       map (\<lambda>c. (c, t, if fails c then SendFailed else Sent)) (clients v) \<and>
     (\<forall>c \<in> set (clients v).
        length (filter (\<lambda>s. fst s = c) (fst (broadcast_tick fails (ws_updates v us)))) = 1)"
proof -
  obtain t where t: "to_text (adapter v) (fst (last us)) (snd (last us)) = Inr t"
    using assms(2) to_text_shape[of "snd (last us)" "adapter v" "fst (last us)"] by simp
  have ne: "t \<noteq> []"
    using t by (rule to_text_nonempty)
  have lt: "latest_text (ws_updates v us) = Some t"
    using assms(1) t by (rule ws_updates_last)
  have cl: "clients (ws_updates v us) = clients v"
    by (simp add: ws_updates_keeps)
  have sends: "fst (broadcast_tick fails (ws_updates v us)) =
       map (\<lambda>c. (c, t, if fails c then SendFailed else Sent)) (clients v)"
    using broadcast_tick_sends[OF lt ne, of fails] cl by simp
  have one: "length (filter (\<lambda>s. fst s = c) (fst (broadcast_tick fails (ws_updates v us)))) = 1"
    if "c \<in> set (clients v)" for c
    unfolding sends using assms(3) that by (rule one_send_each)
  from t lt sends one show ?thesis
    by blast
qed

text \<open>Two notifications, then a tick with clients 1 and 2: each is sent the second text.\<close>

theorem broadcast_sends_latest_only_witness:
  "two_updates \<noteq> [] \<and> length (snd (last two_updates)) = 33 \<and> distinct (clients view_12) \<and>
   (\<exists>t. to_text app_adapter ''2025-01-01T00:00:00.010000'' blended_b = Inr t \<and>
        latest_text (ws_updates view_12 two_updates) = Some t \<and>
        fst (broadcast_tick none_fails (ws_updates view_12 two_updates)) =
          [(1, t, Sent), (2, t, Sent)])"
proof -
  have a1: "two_updates \<noteq> []"
    by (simp add: two_updates_def)
  have a2: "length (snd (last two_updates)) = 33"
    by (simp add: two_updates_def blended_b_def)
  have a3: "distinct (clients view_12)"
    by (simp add: view_12_def)
  from broadcast_sends_latest_only[OF a1 a2 a3, of none_fails] obtain t where
    t: "to_text (adapter view_12) (fst (last two_updates)) (snd (last two_updates)) = Inr t"
    and slot: "latest_text (ws_updates view_12 two_updates) = Some t"
    and sends: "fst (broadcast_tick none_fails (ws_updates view_12 two_updates)) =
       map (\<lambda>c. (c, t, if none_fails c then SendFailed else Sent)) (clients view_12)"
    by blast
  from t have t': "to_text app_adapter ''2025-01-01T00:00:00.010000'' blended_b = Inr t"
    by (simp add: view_12_def two_updates_def)
  from sends have sends': "fst (broadcast_tick none_fails (ws_updates view_12 two_updates)) =
          [(1, t, Sent), (2, t, Sent)]"
    by (simp add: view_12_def none_fails_def)
  from t' slot sends' have "\<exists>t. to_text app_adapter ''2025-01-01T00:00:00.010000'' blended_b = Inr t \<and>
        latest_text (ws_updates view_12 two_updates) = Some t \<and>
        fst (broadcast_tick none_fails (ws_updates view_12 two_updates)) =
          [(1, t, Sent), (2, t, Sent)]"
    by blast
  with a1 a2 a3 show ?thesis
    by blast
qed

text \<open>
  Claim C7, amended. In a tick with a payload in the slot, a send that fails is kept as a
  result and raises nothing: every connected client whose send does not fail is sent the
  payload in that same tick. The tick leaves the view, and so the set of clients, as it
  was: the failing client is still in the set after the tick, and it leaves the set when
  its connection handler ends and discards it.
\<close>

theorem broadcast_tick_keeps_failing_client:
  assumes "latest_text v = Some t" and "t \<noteq> []" and "c \<in> set (clients v)" and "fails c"
  shows "fst (broadcast_tick fails v) =
       map (\<lambda>c. (c, t, if fails c then SendFailed else Sent)) (clients v) \<and>
     (\<forall>d \<in> set (clients v). \<not> fails d \<longrightarrow> (d, t, Sent) \<in> set (fst (broadcast_tick fails v))) \<and>
     snd (broadcast_tick fails v) = v \<and>
     c \<in> set (clients (snd (broadcast_tick fails v))) \<and>
     c \<notin> set (clients (handler_exit (snd (broadcast_tick fails v)) c))"
proof -
  have b: "broadcast_tick fails v =
     (map (\<lambda>c. (c, t, if fails c then SendFailed else Sent)) (clients v), v)"
    using assms(1,2) by (rule broadcast_tick_sends)
  have "(d, t, Sent) \<in> set (map (\<lambda>c. (c, t, if fails c then SendFailed else Sent)) (clients v))"
    if "d \<in> set (clients v)" and "\<not> fails d" for d
    using that by (auto simp: image_iff)
  then show ?thesis
    using b assms(3) by (simp add: handler_exit_def)
qed

text \<open>Clients 1 and 2, the send to 1 fails: 2 is sent the payload, 1 stays in the set.\<close>

theorem broadcast_tick_keeps_failing_client_witness:
  "latest_text view_12_ready = Some [Lit ''{}''] \<and> [Lit ''{}''] \<noteq> [] \<and>
   1 \<in> set (clients view_12_ready) \<and> first_fails 1 \<and>
   2 \<in> set (clients view_12_ready) \<and> \<not> first_fails 2 \<and>
   (2, [Lit ''{}''], Sent) \<in> set (fst (broadcast_tick first_fails view_12_ready)) \<and>
   1 \<in> set (clients (snd (broadcast_tick first_fails view_12_ready))) \<and>
   1 \<notin> set (clients (handler_exit (snd (broadcast_tick first_fails view_12_ready)) 1))"
proof -
  have a1: "latest_text view_12_ready = Some [Lit ''{}'']"
    by (simp add: view_12_ready_def)
  have a2: "[Lit ''{}''] \<noteq> []"
    by simp
  have a3: "1 \<in> set (clients view_12_ready)"
    by (simp add: view_12_ready_def)
  have a4: "first_fails 1"
    by (simp add: first_fails_def)
  have b1: "2 \<in> set (clients view_12_ready)"
    by (simp add: view_12_ready_def)
  have b2: "\<not> first_fails 2"
    by (simp add: first_fails_def)
  from broadcast_tick_keeps_failing_client
      [of view_12_ready "[Lit ''{}'']" 1 first_fails, OF a1 a2 a3 a4] b1 b2
  have "(2, [Lit ''{}''], Sent) \<in> set (fst (broadcast_tick first_fails view_12_ready))"
    and "1 \<in> set (clients (snd (broadcast_tick first_fails view_12_ready)))"
    and "1 \<notin> set (clients (handler_exit (snd (broadcast_tick first_fails view_12_ready)) 1))"
    by blast+
  with a1 a2 a3 a4 b1 b2 show ?thesis
    by blast
qed

text \<open>
  Claim C7 as stated fails: after a tick in which the send to client 1 fails, client 1 is
  still in the set of clients, and the next tick sends to it again.
\<close>

theorem broadcast_tick_removes_nothing_counterexample:
  "first_fails 1 \<and>
   broadcast_tick first_fails view_12_ready =
     ([(1, [Lit ''{}''], SendFailed), (2, [Lit ''{}''], Sent)], view_12_ready) \<and>
   clients (snd (broadcast_tick first_fails view_12_ready)) = [1, 2] \<and>
   fst (broadcast_tick first_fails (snd (broadcast_tick first_fails view_12_ready))) =
     [(1, [Lit ''{}''], SendFailed), (2, [Lit ''{}''], Sent)]"
proof -
  have t: "broadcast_tick first_fails view_12_ready =
     ([(1, [Lit ''{}''], SendFailed), (2, [Lit ''{}''], Sent)], view_12_ready)"
    by code_simp
  have c: "clients view_12_ready = [1, 2]"
    by (simp add: view_12_ready_def)
  show ?thesis
    using t c by (simp add: first_fails_def)
qed

text \<open>
  \<^verbatim>\<open>broadcast_loop\<close> of \<^verbatim>\<open>server.py\<close> does the same: its turn sends the
  payload to every client, keeps the failures as results and leaves the set of clients
  as it was.
\<close>

lemma server_broadcast_tick_sends:
  assumes "latest_payload_text g = Some t" and "t \<noteq> []"
  shows "server_broadcast_tick fails g =
     (map (\<lambda>c. (c, t, if fails c then SendFailed else Sent)) (g_clients g), g)"
  using assms by (cases "g_clients g = []") (simp_all add: server_broadcast_tick_def)

end
